theory Spec2Isabelle
  imports Main "HOL-Library.Multiset"
begin

section \<open>Python values and exceptions\<close>

text \<open>
  The exceptions the modelled code can raise. \<open>IndexError\<close> carries the message of the
  source (\<open>Deck.getCard\<close>) or of the interpreter (\<open>list.pop\<close>, indexing);
  \<open>AttributeError\<close> names the instance attribute that was read before any assignment.
\<close>

datatype error = IndexError string | AttributeError string

text \<open>\<open>xs.pop()\<close>: removes and returns the last element; raises on the empty list.\<close>

definition pop :: "'a list \<Rightarrow> error + ('a \<times> 'a list)" where
  "pop xs = (if xs = [] then Inl (IndexError ''pop from empty list'')
             else Inr (last xs, butlast xs))"

text \<open>\<open>xs[-k]\<close> for a literal \<open>k\<close>: the k-th element from the end.\<close>

definition from_end :: "'a list \<Rightarrow> nat \<Rightarrow> error + 'a" where
  "from_end xs k = (if 0 < k \<and> k \<le> length xs then Inr (xs ! (length xs - k))
                    else Inl (IndexError ''list index out of range''))"

text \<open>Reading an instance attribute that may not have been assigned yet.\<close>

definition attr :: "string \<Rightarrow> 'a option \<Rightarrow> error + 'a" where
  "attr name v = (case v of None \<Rightarrow> Inl (AttributeError name) | Some x \<Rightarrow> Inr x)"

section \<open>Card.py\<close>

text \<open>
  A card object. \<open>images\<close> is the key currently shown by the card's image collection
  (\<open>'front'\<close> or \<open>'back'\<close>); the window, the image files and the screen location are
  rendering and are left out. The field \<open>cvalue\<close> is the attribute \<open>value\<close>.
\<close>

datatype face = Front | Back

record card =
  rank :: string
  suit :: string
  cardName :: string
  cvalue :: int
  images :: face

definition Card_init :: "string \<Rightarrow> string \<Rightarrow> int \<Rightarrow> card" where
  "Card_init r s v =
     \<lparr>rank = r, suit = s, cardName = r @ '' of '' @ s, cvalue = v, images = Back\<rparr>"

definition conceal :: "card \<Rightarrow> card" where
  "conceal c = c\<lparr>images := Back\<rparr>"

definition reveal :: "card \<Rightarrow> card" where
  "reveal c = c\<lparr>images := Front\<rparr>"

definition getValue :: "card \<Rightarrow> int" where
  "getValue c = cvalue c"

text \<open>
  Card objects are shared between the deck's two lists, the piles and the stack, and
  \<open>conceal\<close>/\<open>reveal\<close> mutate them in place. The store holds the objects; every list of
  the program holds references (positions in the store).
\<close>

type_synonym ref = nat
type_synonym store = "card list"

definition conceal_at :: "ref \<Rightarrow> store \<Rightarrow> store" where
  "conceal_at r h = h[r := conceal (h ! r)]"

definition reveal_at :: "ref \<Rightarrow> store \<Rightarrow> store" where
  "reveal_at r h = h[r := reveal (h ! r)]"

text \<open>\<open>for oCard in xs: oCard.conceal()\<close> and the same loop with \<open>reveal\<close>.\<close>

fun conceal_all :: "ref list \<Rightarrow> store \<Rightarrow> store" where
  "conceal_all [] h = h"
| "conceal_all (r # rs) h = conceal_all rs (conceal_at r h)"

fun reveal_all :: "ref list \<Rightarrow> store \<Rightarrow> store" where
  "reveal_all [] h = h"
| "reveal_all (r # rs) h = reveal_all rs (reveal_at r h)"

section \<open>Deck.py\<close>

definition SUIT_TUPLE :: "string list" where
  "SUIT_TUPLE = [''Hearts'', ''Spades'', ''Diamonds'', ''Clubs'']"

text \<open>A dict is iterated in insertion order, so the rank table is an association list.\<close>

definition STANDARD_DICT :: "(string \<times> int) list" where
  "STANDARD_DICT = [(''9'', 9), (''10'', 10), (''Jack'', 11), (''Queen'', 12),
                    (''King'', 13), (''Ace'', 14)]"

record deck =
  startingDeckList :: "ref list"
  playingDeckList :: "ref list"

text \<open>
  \<open>random.shuffle(x)\<close> of the standard library:
  \<^verbatim>\<open>for i in reversed(range(1, len(x))): j = randbelow(i + 1); x[i], x[j] = x[j], x[i]\<close>.
  The generator is a parameter: the list of its raw draws, each reduced to the range
  \<open>0..i\<close>; a draw that is not supplied reads as \<open>0\<close>.
\<close>

definition swap :: "nat \<Rightarrow> nat \<Rightarrow> 'a list \<Rightarrow> 'a list" where
  "swap i j x = (x[i := x ! j])[j := x ! i]"

definition randbelow :: "nat list \<Rightarrow> nat \<Rightarrow> nat" where
  "randbelow ds n = (case ds of [] \<Rightarrow> 0 | d # _ \<Rightarrow> d mod n)"

fun shuffle_loop :: "nat \<Rightarrow> nat list \<Rightarrow> 'a list \<Rightarrow> 'a list" where
  "shuffle_loop 0 ds x = x"
| "shuffle_loop (Suc i) ds x =
     shuffle_loop i (tl ds) (swap (Suc i) (randbelow ds (Suc i + 1)) x)"

definition random_shuffle :: "nat list \<Rightarrow> 'a list \<Rightarrow> 'a list" where
  "random_shuffle ds x = shuffle_loop (length x - 1) ds x"

text \<open>\<open>Deck.shuffle\<close>: copy the starting list, conceal every card, shuffle the copy.\<close>

definition shuffle :: "nat list \<Rightarrow> store \<times> deck \<Rightarrow> store \<times> deck" where
  "shuffle ds hd0 =
     (case hd0 of (h, d) \<Rightarrow>
        let playing = startingDeckList d;
            h' = conceal_all playing h
        in (h', d\<lparr>playingDeckList := random_shuffle ds playing\<rparr>))"

text \<open>
  \<open>Deck.__init__\<close>: one new card object per suit and rank, appended to the starting
  list in the order of the two loops, then \<open>shuffle\<close>.
\<close>

fun make_ranks :: "string \<Rightarrow> (string \<times> int) list \<Rightarrow> store \<times> ref list \<Rightarrow> store \<times> ref list" where
  "make_ranks s [] hl = hl"
| "make_ranks s ((r, v) # rvs) (h, l) =
     make_ranks s rvs (h @ [Card_init r s v], l @ [length h])"

fun make_suits :: "string list \<Rightarrow> (string \<times> int) list \<Rightarrow> store \<times> ref list \<Rightarrow> store \<times> ref list" where
  "make_suits [] rvd hl = hl"
| "make_suits (s # ss) rvd hl = make_suits ss rvd (make_ranks s rvd hl)"

definition Deck_init :: "nat list \<Rightarrow> store \<Rightarrow> (string \<times> int) list \<Rightarrow> store \<times> deck" where
  "Deck_init ds h rankValueDict =
     (case make_suits SUIT_TUPLE rankValueDict (h, []) of (h', l) \<Rightarrow>
        shuffle ds (h', \<lparr>startingDeckList = l, playingDeckList = []\<rparr>))"

text \<open>\<open>Deck.getCard\<close>: pop the last card of the playing list, or raise.\<close>

definition getCard :: "deck \<Rightarrow> error + (ref \<times> deck)" where
  "getCard d =
     (if length (playingDeckList d) = 0 then Inl (IndexError ''Brak kolejnych kart.'')
      else Inr (last (playingDeckList d),
                d\<lparr>playingDeckList := butlast (playingDeckList d)\<rparr>))"

section \<open>Text.py\<close>

text \<open>
  The text elements the engine writes. A message is one of the fixed strings of the
  source, so each element is an enumeration of the values it can hold: the value given by
  \<open>Text.__init__\<close> first, then the values assigned in \<open>Game.py\<close> (in the order of
  the source: player wins the round, NPC wins the round, war, player wins the war, NPC
  wins the war, war again, player has too few cards, NPC has too few cards, maximum
  number of rounds reached). The score, round and war-count elements show a fixed label
  followed by a number: \<open>None\<close> is the constructor's label alone.
\<close>

datatype message =
  MessageInitial | PlayerWinsRound | NpcWinsRound | WarStarts | PlayerWinsWar
  | NpcWinsWar | WarAgain | PlayerTooFewCards | NpcTooFewCards | MaxRoundsReached

datatype game_over_text = GameOverInitial | KoniecGry

datatype winner_text = WinnerInitial | PlayerWinsGame | NpcWinsGame | Remis

record Text =
  playerScoreText :: "int option"
  npcScoreText :: "int option"
  roundNumberText :: "int option"
  warNumberText :: "int option"
  messageText :: message
  gameOverText :: game_over_text
  winnerText :: winner_text

definition Text_init :: Text where
  "Text_init = \<lparr>playerScoreText = None, npcScoreText = None, roundNumberText = None,
                 warNumberText = None, messageText = MessageInitial,
                 gameOverText = GameOverInitial, winnerText = WinnerInitial\<rparr>"

section \<open>Game.py\<close>

text \<open>
  The engine's attributes. The window and the screen locations written by \<open>setLoc\<close>
  only feed the drawing code and are left out; every other attribute is a field, the two
  display lists and \<open>warCardsTop\<close> included, since indexing a display list and reading
  \<open>warCardsTop\<close> can raise. An attribute that \<open>__init__\<close> does not assign (the hand,
  laid, stake and new laid cards, \<open>warCardsTop\<close>) is \<open>None\<close> until its first
  assignment.
\<close>

record game =
  heap :: store
  oDeck :: deck
  oText :: Text
  roundNumber :: int
  cardsSet :: bool
  displayedCardList :: "ref list"
  specialDisplayList :: "ref list"
  playerCardWrap :: bool
  npcCardWrap :: bool
  playerScore :: int
  npcScore :: int
  warNumber :: int
  warMode :: bool
  anotherWar :: bool
  stack :: "ref list"
  stackCardsToShow :: bool
  playerCardList :: "ref list"
  npcCardList :: "ref list"
  playerHandCard :: "ref option"
  npcHandCard :: "ref option"
  playerLaidCard :: "ref option"
  npcLaidCard :: "ref option"
  playerStakeCard :: "ref option"
  npcStakeCard :: "ref option"
  playerNewLaidCard :: "ref option"
  npcNewLaidCard :: "ref option"
  warCardsTop :: "int option"

definition CARDS_TOP :: int where
  "CARDS_TOP = 250"

definition N_SEEN_CARDS :: int where
  "N_SEEN_CARDS = 4"

definition MAX_ROUND_NUMBER :: int where
  "MAX_ROUND_NUMBER = 100"

text \<open>Sequencing of statements that may raise: the first exception ends the call.\<close>

definition bind :: "error + 'a \<Rightarrow> ('a \<Rightarrow> error + 'b) \<Rightarrow> error + 'b" where
  "bind m f = (case m of Inl e \<Rightarrow> Inl e | Inr x \<Rightarrow> f x)"

text \<open>
  \<open>xs[i]\<close> and \<open>xs[i] = v\<close> for an integer index: a negative index counts from the
  end, an index outside the list raises. \<open>py_range a b\<close> is \<open>range(a, b)\<close>, and
  \<open>setLocs xs js\<close> is a loop
  \<open>for i in js: xs[i].setLoc(...)\<close>: the locations are left out, the reads remain.
\<close>

definition item :: "'a list \<Rightarrow> int \<Rightarrow> error + 'a" where
  "item xs i =
     (if 0 \<le> i \<and> i < int (length xs) then Inr (xs ! nat i)
      else if i < 0 \<and> - int (length xs) \<le> i then Inr (xs ! nat (int (length xs) + i))
      else Inl (IndexError ''list index out of range''))"

definition set_item :: "'a list \<Rightarrow> int \<Rightarrow> 'a \<Rightarrow> error + 'a list" where
  "set_item xs i v =
     (if 0 \<le> i \<and> i < int (length xs) then Inr (xs[nat i := v])
      else if i < 0 \<and> - int (length xs) \<le> i then Inr (xs[nat (int (length xs) + i) := v])
      else Inl (IndexError ''list assignment index out of range''))"

definition py_range :: "int \<Rightarrow> int \<Rightarrow> int list" where
  "py_range a b = [a .. b - 1]"

fun setLocs :: "'a list \<Rightarrow> int list \<Rightarrow> error + unit" where
  "setLocs xs [] = Inr ()"
| "setLocs xs (i # js) = bind (item xs i) (\<lambda>c. setLocs xs js)"

text \<open>\<open>firstView\<close>: the hand cards are the last cards of the piles and are added to
  the displayed list, whose first \<open>N_SEEN_CARDS // 2\<close> cards are placed; the loop's
  \<open>else\<close> branch, which runs because the loop has no \<open>break\<close>, sets \<open>cardsSet\<close>.\<close>

definition firstView :: "game \<Rightarrow> error + game" where
  "firstView s =
     bind (from_end (playerCardList s) 1) (\<lambda>p.
     bind (from_end (npcCardList s) 1) (\<lambda>n.
       let s1 = s\<lparr>playerHandCard := Some p, npcHandCard := Some n\<rparr>;
           s2 = s1\<lparr>displayedCardList := displayedCardList s1 @ [p, n]\<rparr>
       in
     bind (setLocs (displayedCardList s2) (py_range 0 (N_SEEN_CARDS div 2))) (\<lambda>u.
       Inr (s2\<lparr>cardsSet := True\<rparr>))))"

text \<open>\<open>setToDisplay\<close>: places the first \<open>N_SEEN_CARDS\<close> cards of the displayed
  list, in two loops.\<close>

definition setToDisplay :: "game \<Rightarrow> error + game" where
  "setToDisplay s =
     bind (setLocs (displayedCardList s) (py_range 0 (N_SEEN_CARDS div 2))) (\<lambda>u.
     bind (setLocs (displayedCardList s) (py_range (N_SEEN_CARDS div 2) N_SEEN_CARDS)) (\<lambda>u.
       Inr s))"

text \<open>\<open>setSpecialToDisplay\<close>: the special list of three cards, the cards it reveals
  and the wrap flag it clears.\<close>

definition setSpecialToDisplay :: "game \<Rightarrow> error + game" where
  "setSpecialToDisplay s =
     (if playerCardWrap s then
        bind (attr ''playerLaidCard'' (playerLaidCard s)) (\<lambda>pl.
        bind (attr ''npcLaidCard'' (npcLaidCard s)) (\<lambda>nl.
        bind (attr ''npcHandCard'' (npcHandCard s)) (\<lambda>nh.
          let s0 = s\<lparr>specialDisplayList := [pl, nl, nh]\<rparr> in
        bind (attr ''playerHandCard'' (playerHandCard s0)) (\<lambda>ph.
          let s1 = (if pl = ph then s0\<lparr>heap := reveal_at pl (heap s0)\<rparr> else s0);
              s2 = s1\<lparr>heap := reveal_at nl (heap s1)\<rparr>
          in
        bind (setLocs (specialDisplayList s2) [0]) (\<lambda>u.
        bind (setLocs (specialDisplayList s2) (py_range 1 3)) (\<lambda>u.
          Inr (s2\<lparr>playerCardWrap := False\<rparr>)))))))
      else
        bind (attr ''playerHandCard'' (playerHandCard s)) (\<lambda>ph.
        bind (attr ''playerLaidCard'' (playerLaidCard s)) (\<lambda>pl.
        bind (attr ''npcLaidCard'' (npcLaidCard s)) (\<lambda>nl.
          let s0 = s\<lparr>specialDisplayList := [ph, pl, nl]\<rparr> in
        bind (attr ''npcHandCard'' (npcHandCard s0)) (\<lambda>nh.
          let s1 = (if nl = nh then s0\<lparr>heap := reveal_at nl (heap s0)\<rparr> else s0);
              s2 = s1\<lparr>heap := reveal_at pl (heap s1)\<rparr>
          in
        bind (setLocs (specialDisplayList s2) (py_range 0 2)) (\<lambda>u.
        bind (setLocs (specialDisplayList s2) [2]) (\<lambda>u.
          Inr (s2\<lparr>npcCardWrap := False\<rparr>))))))))"

text \<open>\<open>prepareToDisplay\<close>: both display lists are emptied; laid cards face up, hand
  cards face down; then the regular layout of four cards or the special one.\<close>

definition prepareToDisplay :: "game \<Rightarrow> error + game" where
  "prepareToDisplay s =
     (let s0 = s\<lparr>displayedCardList := [], specialDisplayList := []\<rparr> in
     bind (attr ''playerLaidCard'' (playerLaidCard s0)) (\<lambda>pl.
     bind (attr ''npcLaidCard'' (npcLaidCard s0)) (\<lambda>nl.
       let s1 = s0\<lparr>heap := reveal_all [pl, nl] (heap s0)\<rparr> in
     bind (attr ''playerHandCard'' (playerHandCard s1)) (\<lambda>ph.
     bind (attr ''npcHandCard'' (npcHandCard s1)) (\<lambda>nh.
       let s2 = s1\<lparr>heap := conceal_all [ph, nh] (heap s1)\<rparr> in
       if \<not> playerCardWrap s2 \<and> \<not> npcCardWrap s2 then
         setToDisplay (s2\<lparr>displayedCardList := displayedCardList s2 @ [ph, pl, nl, nh]\<rparr>)
       else setSpecialToDisplay s2)))))"

text \<open>\<open>returnCard\<close>: \<open>competitorList.insert(0, oCard)\<close>.\<close>

definition returnCard :: "ref list \<Rightarrow> ref \<Rightarrow> ref list" where
  "returnCard competitorList oCard = oCard # competitorList"

definition setScores :: "game \<Rightarrow> game" where
  "setScores s =
     (let s1 = s\<lparr>playerScore := int (length (playerCardList s))\<rparr>;
          s2 = s1\<lparr>oText := (oText s1)\<lparr>playerScoreText := Some (playerScore s1)\<rparr>\<rparr>;
          s3 = s2\<lparr>npcScore := int (length (npcCardList s2))\<rparr>
      in s3\<lparr>oText := (oText s3)\<lparr>npcScoreText := Some (npcScore s3)\<rparr>\<rparr>)"

text \<open>\<open>warChecking\<close>: the player's pile is tested first, then the NPC's.\<close>

definition warChecking :: "game \<Rightarrow> bool \<times> game" where
  "warChecking s =
     (if length (playerCardList s) < 2 then
        let s1 = s\<lparr>oText := (oText s)\<lparr>messageText := PlayerTooFewCards\<rparr>\<rparr>;
            s2 = s1\<lparr>npcCardList := npcCardList s1 @ stack s1 @ playerCardList s1\<rparr>
        in (True, s2\<lparr>playerCardList := []\<rparr>)
      else if length (npcCardList s) < 2 then
        let s1 = s\<lparr>oText := (oText s)\<lparr>messageText := NpcTooFewCards\<rparr>\<rparr>;
            s2 = s1\<lparr>playerCardList := playerCardList s1 @ stack s1 @ npcCardList s1\<rparr>
        in (True, s2\<lparr>npcCardList := []\<rparr>)
      else (False, s))"

text \<open>\<open>checkGameOver\<close>: the three conditions, tested in the order of the source.\<close>

definition checkGameOver :: "game \<Rightarrow> ref list \<Rightarrow> ref list \<Rightarrow> int \<Rightarrow> bool \<times> game" where
  "checkGameOver s playerCards npcCards roundNo =
     (let condition1 = (length npcCards = 0);
          condition2 = (length playerCards = 0);
          condition3 = (roundNo = MAX_ROUND_NUMBER)
      in if condition1 then
           (True, s\<lparr>oText := (oText s)\<lparr>gameOverText := KoniecGry, winnerText := PlayerWinsGame\<rparr>\<rparr>)
         else if condition2 then
           (True, s\<lparr>oText := (oText s)\<lparr>gameOverText := KoniecGry, winnerText := NpcWinsGame\<rparr>\<rparr>)
         else if condition3 then
           (let s1 = s\<lparr>oText := (oText s)\<lparr>gameOverText := KoniecGry,
                                            messageText := MaxRoundsReached\<rparr>\<rparr>
            in if length playerCards > length npcCards then
                 (True, s1\<lparr>oText := (oText s1)\<lparr>winnerText := PlayerWinsGame\<rparr>\<rparr>)
               else if length playerCards < length npcCards then
                 (True, s1\<lparr>oText := (oText s1)\<lparr>winnerText := NpcWinsGame\<rparr>\<rparr>)
               else (True, s1\<lparr>oText := (oText s1)\<lparr>winnerText := Remis\<rparr>\<rparr>))
         else (False, s))"

text \<open>The two pops of a side with the bookkeeping of its hand card and wrap flag.\<close>

definition layPlayer :: "game \<Rightarrow> error + (ref \<times> game)" where
  "layPlayer s =
     bind (pop (playerCardList s)) (\<lambda>(c, rest).
       let s1 = s\<lparr>playerCardList := rest\<rparr> in
       Inr (c, if playerCardList s1 \<noteq> [] then s1\<lparr>playerHandCard := Some (last (playerCardList s1))\<rparr>
               else s1\<lparr>playerCardWrap := True\<rparr>))"

definition layNpc :: "game \<Rightarrow> error + (ref \<times> game)" where
  "layNpc s =
     bind (pop (npcCardList s)) (\<lambda>(c, rest).
       let s1 = s\<lparr>npcCardList := rest\<rparr> in
       Inr (c, if npcCardList s1 \<noteq> [] then s1\<lparr>npcHandCard := Some (last (npcCardList s1))\<rparr>
               else s1\<lparr>npcCardWrap := True\<rparr>))"

text \<open>\<open>gamePlay\<close>: one round of the normal phase.\<close>

definition gamePlay :: "game \<Rightarrow> error + (bool \<times> game)" where
  "gamePlay s =
     (let s1 = s\<lparr>roundNumber := roundNumber s + 1\<rparr>;
          s2 = s1\<lparr>oText := (oText s1)\<lparr>roundNumberText := Some (roundNumber s1)\<rparr>\<rparr>
      in
      bind (layPlayer s2) (\<lambda>(pl, s3).
        let s4 = s3\<lparr>playerLaidCard := Some pl\<rparr> in
      bind (layNpc s4) (\<lambda>(nl, s5).
        let s6 = s5\<lparr>npcLaidCard := Some nl\<rparr> in
      bind
        (if getValue (heap s6 ! pl) > getValue (heap s6 ! nl) then
           let s7 = s6\<lparr>playerCardList := returnCard (playerCardList s6) pl\<rparr>;
               s8 = s7\<lparr>playerCardList := returnCard (playerCardList s7) nl\<rparr>;
               s9 = s8\<lparr>oText := (oText s8)\<lparr>messageText := PlayerWinsRound\<rparr>\<rparr>
           in if playerCardWrap s9 then
                bind (from_end (playerCardList s9) 2) (\<lambda>c. Inr (s9\<lparr>playerHandCard := Some c\<rparr>))
              else Inr s9
         else if getValue (heap s6 ! pl) < getValue (heap s6 ! nl) then
           let s7 = s6\<lparr>npcCardList := returnCard (npcCardList s6) nl\<rparr>;
               s8 = s7\<lparr>npcCardList := returnCard (npcCardList s7) pl\<rparr>;
               s9 = s8\<lparr>oText := (oText s8)\<lparr>messageText := NpcWinsRound\<rparr>\<rparr>
           in if npcCardWrap s9 then
                bind (from_end (npcCardList s9) 2) (\<lambda>c. Inr (s9\<lparr>npcHandCard := Some c\<rparr>))
              else Inr s9
         else
           Inr (s6\<lparr>warMode := True, oText := (oText s6)\<lparr>messageText := WarStarts\<rparr>\<rparr>))
        (\<lambda>s10.
      bind (prepareToDisplay s10) (\<lambda>s11.
        let s12 = setScores s11;
            s13 = (if warMode s12 then snd (warChecking s12) else s12)
        in Inr (checkGameOver s13 (playerCardList s13) (npcCardList s13) (roundNumber s13)))))))"

text \<open>\<open>additionalCards\<close>: places the four cards a war advance added to the displayed
  list and moves \<open>warCardsTop\<close> down by the two steps of 30 of one column. In a first
  war the cards are those at positions \<open>N_SEEN_CARDS\<close> and after, and the top starts
  at \<open>CARDS_TOP + 30\<close>; in a chained war they are the last four cards of the list and
  the top is read from \<open>warCardsTop\<close> before any card is placed.\<close>

definition additionalCards :: "game \<Rightarrow> error + game" where
  "additionalCards s =
     (if \<not> anotherWar s then
        bind (setLocs (displayedCardList s) (py_range N_SEEN_CARDS (N_SEEN_CARDS + 2))) (\<lambda>u.
        bind (setLocs (displayedCardList s) (py_range (N_SEEN_CARDS + 2) (N_SEEN_CARDS + 4))) (\<lambda>u.
          Inr (s\<lparr>warCardsTop := Some (CARDS_TOP + 30 + 30 + 30)\<rparr>)))
      else
        let listIter = int (length (displayedCardList s)) in
        bind (attr ''warCardsTop'' (warCardsTop s)) (\<lambda>thisTop.
        bind (setLocs (displayedCardList s) (py_range (listIter - 4) (listIter - 2))) (\<lambda>u.
        bind (setLocs (displayedCardList s) (py_range (listIter - 2) listIter)) (\<lambda>u.
          Inr (s\<lparr>warCardsTop := Some (thisTop + 30 + 30)\<rparr>)))))"

text \<open>\<open>warGraph\<close>: hand and stake cards face down, laid and new laid cards face up.
  A first war builds the displayed list anew from eight cards; a chained war overwrites
  positions 0 and 3 of the list it finds and appends the four new cards. Both go on with
  the regular layout when no wrap flag is set, the special one otherwise, and with
  \<open>additionalCards\<close>.\<close>

definition warGraph :: "game \<Rightarrow> error + game" where
  "warGraph s =
     bind (attr ''playerHandCard'' (playerHandCard s)) (\<lambda>ph.
     bind (attr ''npcHandCard'' (npcHandCard s)) (\<lambda>nh.
     bind (attr ''playerStakeCard'' (playerStakeCard s)) (\<lambda>pst.
     bind (attr ''npcStakeCard'' (npcStakeCard s)) (\<lambda>nst.
       let s1 = s\<lparr>heap := conceal_all [ph, nh, pst, nst] (heap s)\<rparr> in
     bind (attr ''playerLaidCard'' (playerLaidCard s1)) (\<lambda>pl.
     bind (attr ''npcLaidCard'' (npcLaidCard s1)) (\<lambda>nl.
     bind (attr ''playerNewLaidCard'' (playerNewLaidCard s1)) (\<lambda>pn.
     bind (attr ''npcNewLaidCard'' (npcNewLaidCard s1)) (\<lambda>nn.
       let s2 = s1\<lparr>heap := reveal_all [pl, nl, pn, nn] (heap s1)\<rparr> in
       if \<not> anotherWar s2 then
         let s3 = s2\<lparr>displayedCardList := [], specialDisplayList := []\<rparr>;
             s4 = s3\<lparr>displayedCardList := [ph, pl, nl, nh, pst, pn, nst, nn]\<rparr>
         in
         bind (if \<not> playerCardWrap s4 \<and> \<not> npcCardWrap s4 then setToDisplay s4
               else setSpecialToDisplay s4) (\<lambda>s5.
           additionalCards s5)
       else
         bind (set_item (displayedCardList s2) 0 ph) (\<lambda>d0.
         bind (set_item d0 3 nh) (\<lambda>d3.
           let s4 = s2\<lparr>displayedCardList := d3 @ [pst, pn, nst, nn]\<rparr> in
         bind (if \<not> playerCardWrap s4 \<and> \<not> npcCardWrap s4 then setToDisplay s4
               else setSpecialToDisplay s4) (\<lambda>s5.
           additionalCards s5)))
     ))))))))"

text \<open>\<open>war\<close>: one war advance.\<close>

definition war :: "game \<Rightarrow> error + (bool \<times> game)" where
  "war s =
     bind
       (if \<not> anotherWar s then
          bind (attr ''playerLaidCard'' (playerLaidCard s)) (\<lambda>pl.
          bind (attr ''npcLaidCard'' (npcLaidCard s)) (\<lambda>nl.
            Inr (False, s\<lparr>stack := stack s @ [pl, nl]\<rparr>)))
        else Inr (warChecking s))
       (\<lambda>(insufficient, s1).
     if insufficient then
       Inr (checkGameOver s1 (playerCardList s1) (npcCardList s1) (roundNumber s1))
     else
       let s2 = s1\<lparr>warNumber := warNumber s1 + 1\<rparr>;
           s3 = s2\<lparr>oText := (oText s2)\<lparr>warNumberText := Some (warNumber s2)\<rparr>\<rparr>
       in
       bind (pop (playerCardList s3)) (\<lambda>(pst, prest).
         let s4 = s3\<lparr>playerStakeCard := Some pst, playerCardList := prest\<rparr> in
       bind (pop (npcCardList s4)) (\<lambda>(nst, nrest).
         let s5 = s4\<lparr>npcStakeCard := Some nst, npcCardList := nrest\<rparr> in
       bind (layPlayer s5) (\<lambda>(pn, s6).
         let s7 = s6\<lparr>playerNewLaidCard := Some pn\<rparr> in
       bind (layNpc s7) (\<lambda>(nn, s8).
         let s9 = s8\<lparr>npcNewLaidCard := Some nn\<rparr>;
             s10 = s9\<lparr>stack := stack s9 @ [pst, nst, pn, nn]\<rparr>
         in
       bind (warGraph s10) (\<lambda>s11.
         if getValue (heap s11 ! pn) > getValue (heap s11 ! nn) then
           let s12 = s11\<lparr>oText := (oText s11)\<lparr>messageText := PlayerWinsWar\<rparr>\<rparr>;
               s13 = s12\<lparr>playerCardList := stack s12 @ playerCardList s12\<rparr>;
               s14 = s13\<lparr>stackCardsToShow := True, warMode := False, anotherWar := False\<rparr>
           in Inr (False, setScores s14)
         else if getValue (heap s11 ! pn) < getValue (heap s11 ! nn) then
           let s12 = s11\<lparr>oText := (oText s11)\<lparr>messageText := NpcWinsWar\<rparr>\<rparr>;
               s13 = s12\<lparr>npcCardList := stack s12 @ npcCardList s12\<rparr>;
               s14 = s13\<lparr>stackCardsToShow := True, warMode := False, anotherWar := False\<rparr>
           in Inr (False, setScores s14)
         else
           let s12 = s11\<lparr>oText := (oText s11)\<lparr>messageText := WarAgain\<rparr>\<rparr>;
               s13 = s12\<lparr>anotherWar := True\<rparr>
           in Inr (False, setScores s13)))))))"

text \<open>\<open>showStackCards\<close>: reveal the stack, empty it, test for the end of the game.\<close>

definition showStackCards :: "game \<Rightarrow> bool \<times> game" where
  "showStackCards s =
     (let s1 = s\<lparr>heap := reveal_all (stack s) (heap s)\<rparr>;
          s2 = s1\<lparr>stackCardsToShow := False\<rparr>;
          s3 = s2\<lparr>stack := []\<rparr>
      in checkGameOver s3 (playerCardList s3) (npcCardList s3) (roundNumber s3))"

text \<open>\<open>manageGame\<close>, the advance. The first branch has no \<open>return\<close>: the call
  yields Python's \<open>None\<close>, which the caller's \<open>if gameOver\<close> reads as false.\<close>

definition manageGame :: "game \<Rightarrow> error + (bool option \<times> game)" where
  "manageGame s =
     (if \<not> cardsSet s then bind (firstView s) (\<lambda>s1. Inr (None, s1))
      else if warMode s then bind (war s) (\<lambda>(b, s1). Inr (Some b, s1))
      else if stackCardsToShow s then (case showStackCards s of (b, s1) \<Rightarrow> Inr (Some b, s1))
      else bind (gamePlay s) (\<lambda>(b, s1). Inr (Some b, s1)))"

text \<open>\<open>dealCards\<close>: shuffle, then one \<open>getCard\<close> per position of the starting list,
  to the player on even positions and to the NPC on odd ones.\<close>

fun deal_loop :: "nat list \<Rightarrow> game \<Rightarrow> error + game" where
  "deal_loop [] s = Inr s"
| "deal_loop (i # js) s =
     bind (getCard (oDeck s)) (\<lambda>(c, d).
       deal_loop js
         (if i mod 2 = 0 then s\<lparr>oDeck := d, playerCardList := playerCardList s @ [c]\<rparr>
          else s\<lparr>oDeck := d, npcCardList := npcCardList s @ [c]\<rparr>))"

definition dealCards :: "nat list \<Rightarrow> game \<Rightarrow> error + game" where
  "dealCards ds s =
     (case shuffle ds (heap s, oDeck s) of (h, d) \<Rightarrow>
        let s1 = s\<lparr>heap := h, oDeck := d\<rparr>;
            s2 = s1\<lparr>playerCardList := [], npcCardList := []\<rparr>
        in
        bind (deal_loop [0 ..< length (startingDeckList (oDeck s2))] s2) (\<lambda>s3.
          Inr (s3\<lparr>oText := (oText s3)\<lparr>playerScoreText := Some (playerScore s3),
                                        npcScoreText := Some (npcScore s3)\<rparr>\<rparr>)))"

text \<open>
  \<open>Game.__init__\<close>. \<open>Game_fields\<close> is the assignment of the attributes for a deck that
  has been built; \<open>Game_init\<close> builds the deck from the standard rank table (the source
  passes no table of its own), deals, and makes the first call of \<open>manageGame\<close>. The two
  arguments are the generator's draws for the two shuffles.
\<close>

definition Game_fields :: "store \<times> deck \<Rightarrow> game" where
  "Game_fields hd0 =
     (case hd0 of (h, d) \<Rightarrow>
        \<lparr>heap = h, oDeck = d, oText = Text_init, roundNumber = 0, cardsSet = False,
         displayedCardList = [], specialDisplayList = [],
         playerCardWrap = False, npcCardWrap = False,
         playerScore = int (length (playingDeckList d)) div 2,
         npcScore = int (length (playingDeckList d)) div 2,
         warNumber = 0, warMode = False, anotherWar = False, stack = [],
         stackCardsToShow = False, playerCardList = [], npcCardList = [],
         playerHandCard = None, npcHandCard = None, playerLaidCard = None,
         npcLaidCard = None, playerStakeCard = None, npcStakeCard = None,
         playerNewLaidCard = None, npcNewLaidCard = None, warCardsTop = None\<rparr>)"

definition Game_init :: "nat list \<Rightarrow> nat list \<Rightarrow> error + game" where
  "Game_init ds1 ds2 =
     bind (dealCards ds2 (Game_fields (Deck_init ds1 [] STANDARD_DICT))) (\<lambda>s1.
     bind (manageGame s1) (\<lambda>(r, s2). Inr s2))"

section \<open>Auxiliary notions\<close>

text \<open>
  Two stores hold the same values when no card was added and every card kept its value:
  \<open>conceal\<close> and \<open>reveal\<close> only turn cards over. The stores written by
  \<open>prepareToDisplay\<close> and \<open>warGraph\<close>, the display lists and the top they leave,
  and the texts written by
  \<open>checkGameOver\<close> get names of their own. \<open>draw_all\<close> is the order in which
  successive \<open>pop()\<close> calls take the cards of a pile.
\<close>

definition same_values :: "store \<Rightarrow> store \<Rightarrow> bool" where
  "same_values h h' \<longleftrightarrow> length h' = length h \<and> (\<forall>k. cvalue (h' ! k) = cvalue (h ! k))"

definition prepared_heap :: "game \<Rightarrow> store" where
  "prepared_heap s = heap (projr (prepareToDisplay s))"

definition prepared_display :: "game \<Rightarrow> ref list" where
  "prepared_display s = displayedCardList (projr (prepareToDisplay s))"

definition prepared_special :: "game \<Rightarrow> ref list" where
  "prepared_special s = specialDisplayList (projr (prepareToDisplay s))"

definition war_heap :: "game \<Rightarrow> store" where
  "war_heap s = heap (projr (warGraph s))"

definition war_special :: "game \<Rightarrow> ref list" where
  "war_special s = specialDisplayList (projr (warGraph s))"

definition verdict_text :: "game \<Rightarrow> ref list \<Rightarrow> ref list \<Rightarrow> int \<Rightarrow> Text" where
  "verdict_text s p n r = oText (snd (checkGameOver s p n r))"

function draw_all :: "'a list \<Rightarrow> 'a list" where
  "draw_all xs = (case pop xs of Inl e \<Rightarrow> [] | Inr (c, rest) \<Rightarrow> c # draw_all rest)"
  by pat_completeness auto
termination
  by (relation "measure length") (auto simp: pop_def split: if_splits)

declare draw_all.simps [simp del]

text \<open>
  Example states over the card objects of the standard deck (reference \<open>6 * i + j\<close> is
  the \<open>j\<close>-th rank of the \<open>i\<close>-th suit): a state of the normal phase with given
  piles, as \<open>firstView\<close> leaves it, and a state of the war phase with given piles, stack
  and laid cards, as a tied round (\<open>again\<close> false) or a chain of tied wars leaves it.
  \<open>war_display\<close> lists the cards of the stack after the two laid cards in the order of
  the displayed list: stake and new laid card of the player, then those of the NPC.
\<close>

definition standard_store :: store where
  "standard_store = fst (Deck_init [] [] STANDARD_DICT)"

definition position :: "ref list \<Rightarrow> ref list \<Rightarrow> game" where
  "position p n =
     (Game_fields (Deck_init [] [] STANDARD_DICT))
       \<lparr>cardsSet := True, displayedCardList := [last p, last n],
        playerCardList := p, npcCardList := n,
        playerHandCard := Some (last p), npcHandCard := Some (last n)\<rparr>"

fun war_display :: "ref list \<Rightarrow> ref list" where
  "war_display (pst # nst # pn # nn # xs) = pst # pn # nst # nn # war_display xs"
| "war_display xs = xs"

definition war_position :: "ref list \<Rightarrow> ref list \<Rightarrow> ref list \<Rightarrow> ref \<Rightarrow> ref \<Rightarrow> bool \<Rightarrow> game" where
  "war_position p n st pl nl again =
     (position p n)\<lparr>warMode := True, anotherWar := again, stack := st,
                    displayedCardList := [last p, pl, nl, last n] @ war_display (drop 2 st),
                    playerLaidCard := Some pl, npcLaidCard := Some nl,
                    warCardsTop := (if again then Some (CARDS_TOP + 30 + 60 * int (length st div 4))
                                    else None)\<rparr>"

text \<open>
  The state an advance leaves and the value it returns, for an advance that returns; and
  the example states of the claims below.
\<close>

definition advanced :: "game \<Rightarrow> game" where
  "advanced s = snd (projr (manageGame s))"

definition returned :: "game \<Rightarrow> bool option" where
  "returned s = fst (projr (manageGame s))"

definition war_example :: game where
  "war_example = war_position [23, 21, 19, 17, 15, 13, 11, 9, 7, 5, 3]
                              [22, 20, 18, 16, 14, 12, 10, 8, 1, 4, 2] [] 6 0 False"

definition tie_example :: game where
  "tie_example = position [23, 21, 19, 17, 15, 13, 11, 9, 7, 5, 3, 6]
                          [22, 20, 18, 16, 14, 12, 10, 8, 1, 4, 2, 0]"



definition both_short_example :: game where
  "both_short_example =
     war_position [23] [17]
       [6, 0, 18, 12, 7, 1, 19, 13, 8, 2, 20, 14, 9, 3, 21, 15, 10, 4, 22, 16, 11, 5] 6 0 True"

text \<open>
  The deal in closed form: \<open>deal_split js xs\<close> hands the cards \<open>xs\<close>, in the order
  in which \<open>getCard\<close> yields them, to the player at the even positions of \<open>js\<close> and
  to the NPC at the odd ones; \<open>dealt_player\<close> and \<open>dealt_npc\<close> are the two piles of
  the standard deck for given draws of the second shuffle. A state is reachable, together
  with the value the last advance returned, when it is the state after \<open>__init__\<close> or
  follows a reachable state by an advance made while the game was not over: the caller
  disables the play button as soon as an advance returns true.
\<close>

fun deal_split :: "nat list \<Rightarrow> 'a list \<Rightarrow> 'a list \<times> 'a list" where
  "deal_split [] xs = ([], [])"
| "deal_split (i # js) [] = ([], [])"
| "deal_split (i # js) (c # xs) =
     (if i mod 2 = 0 then (c # fst (deal_split js xs), snd (deal_split js xs))
      else (fst (deal_split js xs), c # snd (deal_split js xs)))"

definition dealt_player :: "nat list \<Rightarrow> ref list" where
  "dealt_player ds = fst (deal_split [0 ..< 24] (rev (random_shuffle ds [0 ..< 24])))"

definition dealt_npc :: "nat list \<Rightarrow> ref list" where
  "dealt_npc ds = snd (deal_split [0 ..< 24] (rev (random_shuffle ds [0 ..< 24])))"

inductive reach :: "bool option \<Rightarrow> game \<Rightarrow> bool" where
  reach_init: "Game_init ds1 ds2 = Inr s \<Longrightarrow> reach None s"
| reach_step: "reach r s \<Longrightarrow> r \<noteq> Some True \<Longrightarrow> manageGame s = Inr (r', s') \<Longrightarrow> reach r' s'"

text \<open>
  The cards an engine holds outside the two piles and the stack: the cards its laid, stake
  and new laid attributes refer to that are in neither pile nor in the stack, each counted
  once. \<open>game_inv\<close> describes the states of a game by phase: where the 24 cards of the
  deck are, and what the last advance returned.
\<close>

definition held :: "game \<Rightarrow> ref list" where
  "held s = concat (map (\<lambda>x. case x of None \<Rightarrow> [] | Some c \<Rightarrow> [c])
     [playerLaidCard s, npcLaidCard s, playerStakeCard s, npcStakeCard s,
      playerNewLaidCard s, npcNewLaidCard s])"

definition cardsInFlight :: "game \<Rightarrow> ref list" where
  "cardsInFlight s =
     remdups (filter (\<lambda>c. c \<notin> set (playerCardList s) \<and> c \<notin> set (npcCardList s)
                          \<and> c \<notin> set (stack s)) (held s))"

definition deck_card :: "ref option \<Rightarrow> bool" where
  "deck_card x = (case x of None \<Rightarrow> True | Some c \<Rightarrow> c < 24)"

definition game_inv :: "bool option \<Rightarrow> game \<Rightarrow> bool" where
  "game_inv r s \<longleftrightarrow>
     cardsSet s \<and> playerHandCard s \<noteq> None \<and> npcHandCard s \<noteq> None
     \<and> startingDeckList (oDeck s) = [0 ..< 24] \<and> same_values standard_store (heap s)
     \<and> deck_card (playerLaidCard s) \<and> deck_card (npcLaidCard s)
     \<and> deck_card (playerStakeCard s) \<and> deck_card (npcStakeCard s)
     \<and> deck_card (playerNewLaidCard s) \<and> deck_card (npcNewLaidCard s)
     \<and> set (stack s) \<subseteq> {..< 24}
     \<and> (if warMode s then
          \<not> stackCardsToShow s \<and>
          (if anotherWar s then
             playerLaidCard s \<noteq> None \<and> npcLaidCard s \<noteq> None
             \<and> 4 \<le> length (displayedCardList s) \<and> warCardsTop s \<noteq> None \<and> stack s \<noteq> []
             \<and> (if r = Some True
                 then mset (playerCardList s) + mset (npcCardList s) = mset [0 ..< 24]
                    \<and> (playerCardList s = [] \<or> npcCardList s = [])
                 else mset (playerCardList s) + mset (npcCardList s) + mset (stack s) = mset [0 ..< 24])
           else stack s = []
             \<and> (\<exists>a b. playerLaidCard s = Some a \<and> npcLaidCard s = Some b
                   \<and> mset (playerCardList s) + mset (npcCardList s) + {#a, b#} = mset [0 ..< 24])
             \<and> (playerCardList s = [] \<or> npcCardList s = []
                  \<or> 2 \<le> length (playerCardList s) \<and> 2 \<le> length (npcCardList s))
             \<and> (if r = Some True
                 then playerCardList s = [] \<or> npcCardList s = [] \<or> roundNumber s = MAX_ROUND_NUMBER
                 else playerCardList s \<noteq> [] \<and> npcCardList s \<noteq> []))
        else \<not> anotherWar s
          \<and> mset (playerCardList s) + mset (npcCardList s) = mset [0 ..< 24]
          \<and> (if stackCardsToShow s then r \<noteq> Some True
              else stack s = []
                \<and> (if r = Some True
                    then playerCardList s = [] \<or> npcCardList s = [] \<or> roundNumber s = MAX_ROUND_NUMBER
                    else playerCardList s \<noteq> [] \<and> npcCardList s \<noteq> [])))"

section \<open>Properties of the deck\<close>

lemma length_swap: "length (swap i j x) = length x"
  by (simp add: swap_def)

lemma mset_swap_eq: "i < length x \<Longrightarrow> j < length x \<Longrightarrow> mset (swap i j x) = mset x"
  unfolding swap_def by (simp add: mset_swap)

lemma randbelow_less: "0 < n \<Longrightarrow> randbelow ds n < n"
  by (simp add: randbelow_def split: list.split)

lemma length_shuffle_loop: "length (shuffle_loop i ds x) = length x"
  by (induction i ds x rule: shuffle_loop.induct) (simp_all add: length_swap)

lemma mset_shuffle_loop: "i < length x \<Longrightarrow> mset (shuffle_loop i ds x) = mset x"
proof (induction i ds x rule: shuffle_loop.induct)
  case (1 ds x)
  then show ?case by simp
next
  case (2 i ds x)
  have j: "randbelow ds (Suc i + 1) < length x"
    using randbelow_less [of "Suc i + 1" ds] "2.prems" by simp
  have "mset (swap (Suc i) (randbelow ds (Suc i + 1)) x) = mset x"
    using "2.prems" j by (rule mset_swap_eq)
  moreover have "i < length (swap (Suc i) (randbelow ds (Suc i + 1)) x)"
    using "2.prems" by (simp add: length_swap)
  ultimately show ?case using "2.IH" by simp
qed

lemma mset_random_shuffle: "mset (random_shuffle ds x) = mset x"
proof (cases x)
  case Nil
  then show ?thesis by (simp add: random_shuffle_def)
next
  case (Cons a as)
  then show ?thesis by (simp add: random_shuffle_def mset_shuffle_loop)
qed

lemma length_conceal_all: "length (conceal_all rs h) = length h"
  by (induction rs arbitrary: h) (simp_all add: conceal_at_def)

lemma conceal_all_keeps_back:
  "r < length h \<Longrightarrow> images (h ! r) = Back \<Longrightarrow> images (conceal_all rs h ! r) = Back"
proof (induction rs arbitrary: h)
  case Nil
  then show ?case by simp
next
  case (Cons a rs)
  have "images (conceal_at a h ! r) = Back"
    using Cons.prems by (cases "a = r") (simp_all add: conceal_at_def conceal_def)
  moreover have "r < length (conceal_at a h)"
    using Cons.prems by (simp add: conceal_at_def)
  ultimately show ?case using Cons.IH by simp
qed

lemma conceal_all_back:
  "r \<in> set rs \<Longrightarrow> r < length h \<Longrightarrow> images (conceal_all rs h ! r) = Back"
proof (induction rs arbitrary: h)
  case Nil
  then show ?case by simp
next
  case (Cons a rs)
  show ?case
  proof (cases "a = r")
    case True
    have "images (conceal_at a h ! r) = Back"
      using True Cons.prems by (simp add: conceal_at_def conceal_def)
    moreover have "r < length (conceal_at a h)"
      using Cons.prems by (simp add: conceal_at_def)
    ultimately show ?thesis using conceal_all_keeps_back by simp
  next
    case False
    then have "r \<in> set rs" using Cons.prems by simp
    moreover have "r < length (conceal_at a h)"
      using Cons.prems by (simp add: conceal_at_def)
    ultimately show ?thesis using Cons.IH by simp
  qed
qed

lemma shuffle_playing: "playingDeckList (snd (shuffle ds (h, d))) = random_shuffle ds (startingDeckList d)"
  by (simp add: shuffle_def Let_def)

lemma shuffle_starting: "startingDeckList (snd (shuffle ds (h, d))) = startingDeckList d"
  by (simp add: shuffle_def Let_def)

lemma shuffle_store: "fst (shuffle ds (h, d)) = conceal_all (startingDeckList d) h"
  by (simp add: shuffle_def Let_def)

lemma getCard_starting: "getCard d = Inr (c, d') \<Longrightarrow> startingDeckList d' = startingDeckList d"
  by (auto simp: getCard_def split: if_splits)

definition example_store :: store where
  "example_store = [reveal (Card_init ''9'' ''Hearts'' 9), Card_init ''9'' ''Spades'' 9,
                    reveal (Card_init ''10'' ''Hearts'' 10), Card_init ''10'' ''Spades'' 10]"

definition example_deck :: deck where
  "example_deck = \<lparr>startingDeckList = [0, 1, 2, 3], playingDeckList = [2]\<rparr>"

text \<open>
  Claim C9. After \<open>shuffle\<close> the playing list is a permutation of the starting list
  (the same multiset of card objects) and every card of it is concealed; the starting
  list is left as it was by \<open>shuffle\<close> and by \<open>getCard\<close>, the only two operations of
  the deck after its construction.
\<close>

theorem shuffle_permutation_concealed:
  assumes "\<forall>r \<in> set (startingDeckList d). r < length h"
  shows "mset (playingDeckList (snd (shuffle ds (h, d)))) = mset (startingDeckList d)
       \<and> (\<forall>r \<in> set (playingDeckList (snd (shuffle ds (h, d)))).
             images (fst (shuffle ds (h, d)) ! r) = Back)
       \<and> startingDeckList (snd (shuffle ds (h, d))) = startingDeckList d
       \<and> (\<forall>d0 c d1. getCard d0 = Inr (c, d1) \<longrightarrow> startingDeckList d1 = startingDeckList d0)"
proof -
  have perm: "mset (playingDeckList (snd (shuffle ds (h, d)))) = mset (startingDeckList d)"
    by (simp add: shuffle_playing mset_random_shuffle)
  have concealed: "images (fst (shuffle ds (h, d)) ! r) = Back"
    if "r \<in> set (playingDeckList (snd (shuffle ds (h, d))))" for r
  proof -
    have "r \<in># mset (startingDeckList d)" using that perm by (metis set_mset_mset)
    then have mem: "r \<in> set (startingDeckList d)" by simp
    then have "r < length h" using assms by blast
    then show ?thesis using mem by (simp add: shuffle_store conceal_all_back)
  qed
  show ?thesis using perm concealed shuffle_starting getCard_starting by blast
qed

theorem shuffle_permutation_concealed_witness:
  "list_all (\<lambda>r. r < length example_store) (startingDeckList example_deck)
   \<and> mset (playingDeckList (snd (shuffle [7, 0, 1] (example_store, example_deck)))) = mset [0, 1, 2, 3]
   \<and> playingDeckList (snd (shuffle [7, 0, 1] (example_store, example_deck))) = [2, 1, 0, 3]
   \<and> images (fst (shuffle [7, 0, 1] (example_store, example_deck)) ! 2) = Back
   \<and> startingDeckList (snd (shuffle [7, 0, 1] (example_store, example_deck))) = [0, 1, 2, 3]"
proof -
  have h: "\<forall>r \<in> set (startingDeckList example_deck). r < length example_store"
    by (simp add: example_deck_def example_store_def)
  have p: "playingDeckList (snd (shuffle [7, 0, 1] (example_store, example_deck))) = [2, 1, 0, 3]"
    by (simp add: shuffle_def example_deck_def random_shuffle_def swap_def randbelow_def Let_def)
  show ?thesis
    using h p shuffle_permutation_concealed [OF h, of "[7, 0, 1]"]
    by (simp add: example_deck_def)
qed

section \<open>Effects of the engine's operations\<close>

lemma bind_Inr [simp]: "bind (Inr x) f = f x" by (simp add: bind_def)
lemma bind_Inl [simp]: "bind (Inl e) f = Inl e" by (simp add: bind_def)

lemma pop_snoc [simp]: "pop (xs @ [x]) = Inr (x, xs)"
  by (simp add: pop_def)

lemma pop_snoc2 [simp]: "pop (xs @ [y, x]) = Inr (x, xs @ [y])"
  by (simp add: pop_def butlast_append)

lemma pop_Nil [simp]: "pop [] = Inl (IndexError ''pop from empty list'')"
  by (simp add: pop_def)

lemma draw_all_rev: "draw_all xs = rev xs"
proof (induction xs rule: rev_induct)
  case Nil
  show ?case by (simp add: draw_all.simps)
next
  case (snoc x xs)
  then show ?case by (simp add: draw_all.simps [of "xs @ [x]"])
qed

lemma cvalue_reveal_at [simp]: "cvalue (reveal_at r h ! k) = cvalue (h ! k)"
  by (cases "r < length h"; cases "k = r") (simp_all add: reveal_at_def reveal_def list_update_beyond)

lemma cvalue_conceal_at [simp]: "cvalue (conceal_at r h ! k) = cvalue (h ! k)"
  by (cases "r < length h"; cases "k = r") (simp_all add: conceal_at_def conceal_def list_update_beyond)

lemma length_reveal_at [simp]: "length (reveal_at r h) = length h"
  by (simp add: reveal_at_def)

lemma length_conceal_at [simp]: "length (conceal_at r h) = length h"
  by (simp add: conceal_at_def)

lemma cvalue_reveal_all [simp]: "cvalue (reveal_all rs h ! k) = cvalue (h ! k)"
  by (induction rs arbitrary: h) simp_all

lemma cvalue_conceal_all [simp]: "cvalue (conceal_all rs h ! k) = cvalue (h ! k)"
  by (induction rs arbitrary: h) simp_all

lemma length_reveal_all [simp]: "length (reveal_all rs h) = length h"
  by (induction rs arbitrary: h) simp_all

lemma same_values_refl [simp]: "same_values h h"
  by (simp add: same_values_def)

lemma same_values_trans: "same_values h1 h2 \<Longrightarrow> same_values h2 h3 \<Longrightarrow> same_values h1 h3"
  by (simp add: same_values_def)

lemma same_values_cvalue: "same_values h h' \<Longrightarrow> cvalue (h' ! k) = cvalue (h ! k)"
  by (simp add: same_values_def)

lemma layPlayer_eq:
  "playerCardList s \<noteq> [] \<Longrightarrow>
   layPlayer s = Inr (last (playerCardList s), s\<lparr>playerCardList := butlast (playerCardList s),
       playerHandCard := (if butlast (playerCardList s) = [] then playerHandCard s
                          else Some (last (butlast (playerCardList s)))),
       playerCardWrap := (butlast (playerCardList s) = [] \<or> playerCardWrap s)\<rparr>)"
  by (cases "butlast (playerCardList s) = []") (simp_all add: layPlayer_def pop_def Let_def)

lemma layNpc_eq:
  "npcCardList s \<noteq> [] \<Longrightarrow>
   layNpc s = Inr (last (npcCardList s), s\<lparr>npcCardList := butlast (npcCardList s),
       npcHandCard := (if butlast (npcCardList s) = [] then npcHandCard s
                       else Some (last (butlast (npcCardList s)))),
       npcCardWrap := (butlast (npcCardList s) = [] \<or> npcCardWrap s)\<rparr>)"
  by (cases "butlast (npcCardList s) = []") (simp_all add: layNpc_def pop_def Let_def)

lemma setLocs_ok:
  "(\<And>i. i \<in> set js \<Longrightarrow> - int (length xs) \<le> i \<and> i < int (length xs)) \<Longrightarrow> setLocs xs js = Inr ()"
proof (induction js)
  case Nil
  show ?case by simp
next
  case (Cons j js)
  have "- int (length xs) \<le> j \<and> j < int (length xs)" using Cons.prems [of j] by simp
  then have "\<exists>c. item xs j = Inr c" by (simp add: item_def Let_def)
  then show ?case using Cons by auto
qed

lemma set_py_range: "set (py_range a b) = {a ..< b}"
  by (auto simp: py_range_def)

lemma setLocs_range:
  "- int (length xs) \<le> a \<Longrightarrow> b \<le> int (length xs) \<Longrightarrow> setLocs xs (py_range a b) = Inr ()"
  by (rule setLocs_ok) (auto simp: set_py_range)

lemma setLocs_single:
  "- int (length xs) \<le> a \<Longrightarrow> a < int (length xs) \<Longrightarrow> setLocs xs [a] = Inr ()"
  by (rule setLocs_ok) auto

lemma setToDisplay_eq: "4 \<le> length (displayedCardList s) \<Longrightarrow> setToDisplay s = Inr s"
  by (simp add: setToDisplay_def setLocs_range N_SEEN_CARDS_def)

lemma additionalCards_first:
  "\<not> anotherWar s \<Longrightarrow> 8 \<le> length (displayedCardList s) \<Longrightarrow>
   additionalCards s = Inr (s\<lparr>warCardsTop := Some (CARDS_TOP + 30 + 30 + 30)\<rparr>)"
  by (simp add: additionalCards_def setLocs_range N_SEEN_CARDS_def)

lemma additionalCards_chained:
  "anotherWar s \<Longrightarrow> 4 \<le> length (displayedCardList s) \<Longrightarrow> warCardsTop s \<noteq> None \<Longrightarrow>
   additionalCards s = Inr (s\<lparr>warCardsTop := Some (the (warCardsTop s) + 30 + 30)\<rparr>)"
  by (auto simp add: additionalCards_def setLocs_range attr_def Let_def)

lemma set_item_0: "4 \<le> length xs \<Longrightarrow> set_item xs 0 v = Inr (xs[0 := v])"
  by (cases xs) (simp_all add: set_item_def Let_def)

lemma set_item_3: "4 \<le> length xs \<Longrightarrow> set_item xs 3 v = Inr (xs[3 := v])"
  by (simp add: set_item_def Let_def)

lemmas display_simps =
  prepareToDisplay_def setSpecialToDisplay_def warGraph_def attr_def Let_def
  setToDisplay_eq setLocs_range item_def additionalCards_first additionalCards_chained
  set_item_0 set_item_3

lemma prepareToDisplay_eq:
  assumes "playerLaidCard s \<noteq> None" "npcLaidCard s \<noteq> None"
    "playerHandCard s \<noteq> None" "npcHandCard s \<noteq> None"
  shows "prepareToDisplay s =
           Inr (s\<lparr>heap := prepared_heap s, displayedCardList := prepared_display s,
                  specialDisplayList := prepared_special s, playerCardWrap := False,
                  npcCardWrap := (playerCardWrap s \<and> npcCardWrap s)\<rparr>)"
  using assms unfolding prepared_heap_def prepared_display_def prepared_special_def
  by (cases "playerCardWrap s"; cases "npcCardWrap s") (auto simp add: display_simps)

lemma prepared_heap_values:
  assumes "playerLaidCard s \<noteq> None" "npcLaidCard s \<noteq> None"
    "playerHandCard s \<noteq> None" "npcHandCard s \<noteq> None" "heap s = h"
  shows "same_values h (prepared_heap s)"
  using assms unfolding prepared_heap_def
  by (cases "playerCardWrap s"; cases "npcCardWrap s")
     (auto simp add: display_simps same_values_def)

lemma warGraph_eq:
  assumes "playerLaidCard s \<noteq> None" "npcLaidCard s \<noteq> None"
    "playerHandCard s \<noteq> None" "npcHandCard s \<noteq> None"
    "playerStakeCard s \<noteq> None" "npcStakeCard s \<noteq> None"
    "playerNewLaidCard s \<noteq> None" "npcNewLaidCard s \<noteq> None"
    "anotherWar s \<longrightarrow> 4 \<le> length (displayedCardList s) \<and> warCardsTop s \<noteq> None"
  shows "warGraph s =
           Inr (s\<lparr>heap := war_heap s,
                  displayedCardList :=
                    (if anotherWar s
                     then (displayedCardList s)
                            [0 := the (playerHandCard s), 3 := the (npcHandCard s)]
                          @ [the (playerStakeCard s), the (playerNewLaidCard s),
                             the (npcStakeCard s), the (npcNewLaidCard s)]
                     else [the (playerHandCard s), the (playerLaidCard s),
                           the (npcLaidCard s), the (npcHandCard s),
                           the (playerStakeCard s), the (playerNewLaidCard s),
                           the (npcStakeCard s), the (npcNewLaidCard s)]),
                  specialDisplayList := war_special s,
                  warCardsTop :=
                    Some (if anotherWar s then the (warCardsTop s) + 30 + 30
                          else CARDS_TOP + 30 + 30 + 30),
                  playerCardWrap := False,
                  npcCardWrap := (playerCardWrap s \<and> npcCardWrap s)\<rparr>)"
  using assms unfolding war_heap_def war_special_def
  by (cases "playerCardWrap s"; cases "npcCardWrap s"; cases "anotherWar s")
     (auto simp add: display_simps)

lemma war_heap_values:
  assumes "playerLaidCard s \<noteq> None" "npcLaidCard s \<noteq> None"
    "playerHandCard s \<noteq> None" "npcHandCard s \<noteq> None"
    "playerStakeCard s \<noteq> None" "npcStakeCard s \<noteq> None"
    "playerNewLaidCard s \<noteq> None" "npcNewLaidCard s \<noteq> None"
    "anotherWar s \<longrightarrow> 4 \<le> length (displayedCardList s) \<and> warCardsTop s \<noteq> None"
    "heap s = h"
  shows "same_values h (war_heap s)"
  using assms unfolding war_heap_def
  by (cases "playerCardWrap s"; cases "npcCardWrap s"; cases "anotherWar s")
     (auto simp add: display_simps same_values_def)

lemma checkGameOver_eq:
  "checkGameOver s p n r =
     (n = [] \<or> p = [] \<or> r = MAX_ROUND_NUMBER, s\<lparr>oText := verdict_text s p n r\<rparr>)"
  by (simp add: checkGameOver_def Let_def verdict_text_def)

lemma warChecking_sufficient:
  "2 \<le> length (playerCardList s) \<Longrightarrow> 2 \<le> length (npcCardList s) \<Longrightarrow> warChecking s = (False, s)"
  by (simp add: warChecking_def)

lemma warChecking_player_short:
  "length (playerCardList s) < 2 \<Longrightarrow>
   warChecking s = (True, s\<lparr>oText := (oText s)\<lparr>messageText := PlayerTooFewCards\<rparr>,
                             npcCardList := npcCardList s @ stack s @ playerCardList s,
                             playerCardList := []\<rparr>)"
  by (simp add: warChecking_def Let_def)

lemma warChecking_npc_short:
  "2 \<le> length (playerCardList s) \<Longrightarrow> length (npcCardList s) < 2 \<Longrightarrow>
   warChecking s = (True, s\<lparr>oText := (oText s)\<lparr>messageText := NpcTooFewCards\<rparr>,
                             playerCardList := playerCardList s @ stack s @ npcCardList s,
                             npcCardList := []\<rparr>)"
  by (simp add: warChecking_def Let_def)

lemma if_Inr_playerHandCard:
  "(if c then Inr (s\<lparr>playerHandCard := v\<rparr>) else Inr s) =
   (Inr (s\<lparr>playerHandCard := (if c then v else playerHandCard s)\<rparr>) :: error + game)"
  by simp

lemma if_Inr_npcHandCard:
  "(if c then Inr (s\<lparr>npcHandCard := v\<rparr>) else Inr s) =
   (Inr (s\<lparr>npcHandCard := (if c then v else npcHandCard s)\<rparr>) :: error + game)"
  by simp

lemmas gamePlay_simps =
  gamePlay_def layPlayer_eq layNpc_eq Let_def getValue_def returnCard_def from_end_def
  if_Inr_playerHandCard if_Inr_npcHandCard prepareToDisplay_eq setScores_def checkGameOver_eq
  prepared_heap_values

lemma gamePlay_player_wins:
  assumes "playerCardList s = ps @ [a]" "npcCardList s = ns @ [b]"
    "playerHandCard s \<noteq> None" "npcHandCard s \<noteq> None" "\<not> warMode s"
    "cvalue (heap s ! a) > cvalue (heap s ! b)"
  shows "\<exists>s'. gamePlay s = Inr (ns = [] \<or> roundNumber s + 1 = MAX_ROUND_NUMBER, s')
    \<and> playerCardList s' = b # a # ps \<and> npcCardList s' = ns
    \<and> stack s' = stack s \<and> \<not> warMode s' \<and> anotherWar s' = anotherWar s
    \<and> stackCardsToShow s' = stackCardsToShow s \<and> cardsSet s' = cardsSet s
    \<and> roundNumber s' = roundNumber s + 1 \<and> oDeck s' = oDeck s
    \<and> playerHandCard s' \<noteq> None \<and> npcHandCard s' \<noteq> None
    \<and> playerLaidCard s' = Some a \<and> npcLaidCard s' = Some b
    \<and> playerStakeCard s' = playerStakeCard s \<and> npcStakeCard s' = npcStakeCard s
    \<and> playerNewLaidCard s' = playerNewLaidCard s \<and> npcNewLaidCard s' = npcNewLaidCard s
    \<and> same_values (heap s) (heap s')"
  using assms by (simp add: gamePlay_simps)

lemma gamePlay_npc_wins:
  assumes "playerCardList s = ps @ [a]" "npcCardList s = ns @ [b]"
    "playerHandCard s \<noteq> None" "npcHandCard s \<noteq> None" "\<not> warMode s"
    "cvalue (heap s ! a) < cvalue (heap s ! b)"
  shows "\<exists>s'. gamePlay s = Inr (ps = [] \<or> roundNumber s + 1 = MAX_ROUND_NUMBER, s')
    \<and> playerCardList s' = ps \<and> npcCardList s' = a # b # ns
    \<and> stack s' = stack s \<and> \<not> warMode s' \<and> anotherWar s' = anotherWar s
    \<and> stackCardsToShow s' = stackCardsToShow s \<and> cardsSet s' = cardsSet s
    \<and> roundNumber s' = roundNumber s + 1 \<and> oDeck s' = oDeck s
    \<and> playerHandCard s' \<noteq> None \<and> npcHandCard s' \<noteq> None
    \<and> playerLaidCard s' = Some a \<and> npcLaidCard s' = Some b
    \<and> playerStakeCard s' = playerStakeCard s \<and> npcStakeCard s' = npcStakeCard s
    \<and> playerNewLaidCard s' = playerNewLaidCard s \<and> npcNewLaidCard s' = npcNewLaidCard s
    \<and> same_values (heap s) (heap s')"
  using assms by (simp add: gamePlay_simps)

lemma gamePlay_tie:
  assumes "playerCardList s = ps @ [a]" "npcCardList s = ns @ [b]"
    "playerHandCard s \<noteq> None" "npcHandCard s \<noteq> None" "\<not> warMode s"
    "cvalue (heap s ! a) = cvalue (heap s ! b)"
    "2 \<le> length ps" "2 \<le> length ns"
  shows "\<exists>s'. gamePlay s = Inr (roundNumber s + 1 = MAX_ROUND_NUMBER, s')
    \<and> playerCardList s' = ps \<and> npcCardList s' = ns
    \<and> stack s' = stack s \<and> warMode s' \<and> anotherWar s' = anotherWar s
    \<and> stackCardsToShow s' = stackCardsToShow s \<and> cardsSet s' = cardsSet s
    \<and> roundNumber s' = roundNumber s + 1 \<and> oDeck s' = oDeck s
    \<and> playerHandCard s' \<noteq> None \<and> npcHandCard s' \<noteq> None
    \<and> playerLaidCard s' = Some a \<and> npcLaidCard s' = Some b
    \<and> playerStakeCard s' = playerStakeCard s \<and> npcStakeCard s' = npcStakeCard s
    \<and> playerNewLaidCard s' = playerNewLaidCard s \<and> npcNewLaidCard s' = npcNewLaidCard s
    \<and> same_values (heap s) (heap s')"
  using assms by (auto simp add: gamePlay_simps warChecking_sufficient)

lemma gamePlay_tie_player_short:
  assumes "playerCardList s = ps @ [a]" "npcCardList s = ns @ [b]"
    "playerHandCard s \<noteq> None" "npcHandCard s \<noteq> None" "\<not> warMode s"
    "cvalue (heap s ! a) = cvalue (heap s ! b)"
    "length ps < 2"
  shows "\<exists>s'. gamePlay s = Inr (True, s')
    \<and> playerCardList s' = [] \<and> npcCardList s' = ns @ stack s @ ps
    \<and> stack s' = stack s \<and> warMode s' \<and> anotherWar s' = anotherWar s
    \<and> stackCardsToShow s' = stackCardsToShow s \<and> cardsSet s' = cardsSet s
    \<and> roundNumber s' = roundNumber s + 1 \<and> oDeck s' = oDeck s
    \<and> playerHandCard s' \<noteq> None \<and> npcHandCard s' \<noteq> None
    \<and> playerLaidCard s' = Some a \<and> npcLaidCard s' = Some b
    \<and> playerStakeCard s' = playerStakeCard s \<and> npcStakeCard s' = npcStakeCard s
    \<and> playerNewLaidCard s' = playerNewLaidCard s \<and> npcNewLaidCard s' = npcNewLaidCard s
    \<and> same_values (heap s) (heap s')"
  using assms by (auto simp add: gamePlay_simps warChecking_player_short)

lemma gamePlay_tie_npc_short:
  assumes "playerCardList s = ps @ [a]" "npcCardList s = ns @ [b]"
    "playerHandCard s \<noteq> None" "npcHandCard s \<noteq> None" "\<not> warMode s"
    "cvalue (heap s ! a) = cvalue (heap s ! b)"
    "2 \<le> length ps" "length ns < 2"
  shows "\<exists>s'. gamePlay s = Inr (True, s')
    \<and> playerCardList s' = ps @ stack s @ ns \<and> npcCardList s' = []
    \<and> stack s' = stack s \<and> warMode s' \<and> anotherWar s' = anotherWar s
    \<and> stackCardsToShow s' = stackCardsToShow s \<and> cardsSet s' = cardsSet s
    \<and> roundNumber s' = roundNumber s + 1 \<and> oDeck s' = oDeck s
    \<and> playerHandCard s' \<noteq> None \<and> npcHandCard s' \<noteq> None
    \<and> playerLaidCard s' = Some a \<and> npcLaidCard s' = Some b
    \<and> playerStakeCard s' = playerStakeCard s \<and> npcStakeCard s' = npcStakeCard s
    \<and> playerNewLaidCard s' = playerNewLaidCard s \<and> npcNewLaidCard s' = npcNewLaidCard s
    \<and> same_values (heap s) (heap s')"
  using assms by (auto simp add: gamePlay_simps warChecking_npc_short)

lemma war_heap_cvalue:
  assumes "playerLaidCard s \<noteq> None" "npcLaidCard s \<noteq> None"
    "playerHandCard s \<noteq> None" "npcHandCard s \<noteq> None"
    "playerStakeCard s \<noteq> None" "npcStakeCard s \<noteq> None"
    "playerNewLaidCard s \<noteq> None" "npcNewLaidCard s \<noteq> None"
    "anotherWar s \<longrightarrow> 4 \<le> length (displayedCardList s) \<and> warCardsTop s \<noteq> None"
  shows "cvalue (war_heap s ! k) = cvalue (heap s ! k)"
  using war_heap_values [OF assms refl] by (simp add: same_values_def)

lemma winnerText_verdict:
  "winnerText (verdict_text s p n r) =
     (if n = [] then PlayerWinsGame else if p = [] then NpcWinsGame
      else if r = MAX_ROUND_NUMBER then
        (if length p > length n then PlayerWinsGame
         else if length p < length n then NpcWinsGame else Remis)
      else winnerText (oText s))"
  by (simp add: verdict_text_def checkGameOver_def Let_def)

lemmas war_simps =
  war_def attr_def warChecking_sufficient layPlayer_eq layNpc_eq Let_def getValue_def
  warGraph_eq war_heap_values war_heap_cvalue setScores_def checkGameOver_eq

lemma war_player_wins:
  assumes "playerCardList s = ps @ [pn, pst]" "npcCardList s = ns @ [nn, nst]"
    "playerHandCard s \<noteq> None" "npcHandCard s \<noteq> None"
    "playerLaidCard s = Some pl" "npcLaidCard s = Some nl"
    "anotherWar s \<longrightarrow> 4 \<le> length (displayedCardList s) \<and> warCardsTop s \<noteq> None"
    "cvalue (heap s ! pn) > cvalue (heap s ! nn)"
  shows "\<exists>s'. war s = Inr (False, s')
    \<and> stack s' = (if anotherWar s then stack s else stack s @ [pl, nl]) @ [pst, nst, pn, nn]
    \<and> playerCardList s' = stack s' @ ps \<and> npcCardList s' = ns
    \<and> \<not> warMode s' \<and> \<not> anotherWar s' \<and> stackCardsToShow s'
    \<and> cardsSet s' = cardsSet s \<and> roundNumber s' = roundNumber s \<and> oDeck s' = oDeck s
    \<and> playerHandCard s' \<noteq> None \<and> npcHandCard s' \<noteq> None
    \<and> playerLaidCard s' = Some pl \<and> npcLaidCard s' = Some nl
    \<and> playerStakeCard s' = Some pst \<and> npcStakeCard s' = Some nst
    \<and> playerNewLaidCard s' = Some pn \<and> npcNewLaidCard s' = Some nn
    \<and> 4 \<le> length (displayedCardList s') \<and> warCardsTop s' \<noteq> None
    \<and> same_values (heap s) (heap s')"
  using assms by (cases "anotherWar s") (simp_all add: war_simps)

lemma war_npc_wins:
  assumes "playerCardList s = ps @ [pn, pst]" "npcCardList s = ns @ [nn, nst]"
    "playerHandCard s \<noteq> None" "npcHandCard s \<noteq> None"
    "playerLaidCard s = Some pl" "npcLaidCard s = Some nl"
    "anotherWar s \<longrightarrow> 4 \<le> length (displayedCardList s) \<and> warCardsTop s \<noteq> None"
    "cvalue (heap s ! pn) < cvalue (heap s ! nn)"
  shows "\<exists>s'. war s = Inr (False, s')
    \<and> stack s' = (if anotherWar s then stack s else stack s @ [pl, nl]) @ [pst, nst, pn, nn]
    \<and> playerCardList s' = ps \<and> npcCardList s' = stack s' @ ns
    \<and> \<not> warMode s' \<and> \<not> anotherWar s' \<and> stackCardsToShow s'
    \<and> cardsSet s' = cardsSet s \<and> roundNumber s' = roundNumber s \<and> oDeck s' = oDeck s
    \<and> playerHandCard s' \<noteq> None \<and> npcHandCard s' \<noteq> None
    \<and> playerLaidCard s' = Some pl \<and> npcLaidCard s' = Some nl
    \<and> playerStakeCard s' = Some pst \<and> npcStakeCard s' = Some nst
    \<and> playerNewLaidCard s' = Some pn \<and> npcNewLaidCard s' = Some nn
    \<and> 4 \<le> length (displayedCardList s') \<and> warCardsTop s' \<noteq> None
    \<and> same_values (heap s) (heap s')"
  using assms by (cases "anotherWar s") (simp_all add: war_simps)

lemma war_tie_again:
  assumes "playerCardList s = ps @ [pn, pst]" "npcCardList s = ns @ [nn, nst]"
    "playerHandCard s \<noteq> None" "npcHandCard s \<noteq> None"
    "playerLaidCard s = Some pl" "npcLaidCard s = Some nl"
    "anotherWar s \<longrightarrow> 4 \<le> length (displayedCardList s) \<and> warCardsTop s \<noteq> None"
    "cvalue (heap s ! pn) = cvalue (heap s ! nn)"
  shows "\<exists>s'. war s = Inr (False, s')
    \<and> stack s' = (if anotherWar s then stack s else stack s @ [pl, nl]) @ [pst, nst, pn, nn]
    \<and> playerCardList s' = ps \<and> npcCardList s' = ns
    \<and> warMode s' = warMode s \<and> anotherWar s' \<and> stackCardsToShow s' = stackCardsToShow s
    \<and> cardsSet s' = cardsSet s \<and> roundNumber s' = roundNumber s \<and> oDeck s' = oDeck s
    \<and> playerHandCard s' \<noteq> None \<and> npcHandCard s' \<noteq> None
    \<and> playerLaidCard s' = Some pl \<and> npcLaidCard s' = Some nl
    \<and> playerStakeCard s' = Some pst \<and> npcStakeCard s' = Some nst
    \<and> playerNewLaidCard s' = Some pn \<and> npcNewLaidCard s' = Some nn
    \<and> 4 \<le> length (displayedCardList s') \<and> warCardsTop s' \<noteq> None
    \<and> same_values (heap s) (heap s')"
  using assms by (cases "anotherWar s") (simp_all add: war_simps)

lemma war_player_short:
  assumes "anotherWar s" "length (playerCardList s) < 2"
  shows "\<exists>s'. war s = Inr (True, s')
    \<and> playerCardList s' = [] \<and> npcCardList s' = npcCardList s @ stack s @ playerCardList s
    \<and> stack s' = stack s
    \<and> warMode s' = warMode s \<and> anotherWar s' \<and> stackCardsToShow s' = stackCardsToShow s
    \<and> cardsSet s' = cardsSet s \<and> roundNumber s' = roundNumber s \<and> oDeck s' = oDeck s
    \<and> playerHandCard s' = playerHandCard s \<and> npcHandCard s' = npcHandCard s
    \<and> playerLaidCard s' = playerLaidCard s \<and> npcLaidCard s' = npcLaidCard s
    \<and> playerStakeCard s' = playerStakeCard s \<and> npcStakeCard s' = npcStakeCard s
    \<and> playerNewLaidCard s' = playerNewLaidCard s \<and> npcNewLaidCard s' = npcNewLaidCard s
    \<and> displayedCardList s' = displayedCardList s \<and> warCardsTop s' = warCardsTop s
    \<and> heap s' = heap s \<and> playerScore s' = playerScore s \<and> npcScore s' = npcScore s
    \<and> winnerText (oText s') =
        (if npcCardList s @ stack s @ playerCardList s = [] then PlayerWinsGame else NpcWinsGame)"
  using assms
  by (simp add: war_def warChecking_player_short checkGameOver_eq winnerText_verdict)

lemma war_npc_short:
  assumes "anotherWar s" "2 \<le> length (playerCardList s)" "length (npcCardList s) < 2"
  shows "\<exists>s'. war s = Inr (True, s')
    \<and> playerCardList s' = playerCardList s @ stack s @ npcCardList s \<and> npcCardList s' = []
    \<and> stack s' = stack s
    \<and> warMode s' = warMode s \<and> anotherWar s' \<and> stackCardsToShow s' = stackCardsToShow s
    \<and> cardsSet s' = cardsSet s \<and> roundNumber s' = roundNumber s \<and> oDeck s' = oDeck s
    \<and> playerHandCard s' = playerHandCard s \<and> npcHandCard s' = npcHandCard s
    \<and> playerLaidCard s' = playerLaidCard s \<and> npcLaidCard s' = npcLaidCard s
    \<and> playerStakeCard s' = playerStakeCard s \<and> npcStakeCard s' = npcStakeCard s
    \<and> playerNewLaidCard s' = playerNewLaidCard s \<and> npcNewLaidCard s' = npcNewLaidCard s
    \<and> displayedCardList s' = displayedCardList s \<and> warCardsTop s' = warCardsTop s
    \<and> heap s' = heap s \<and> playerScore s' = playerScore s \<and> npcScore s' = npcScore s
    \<and> winnerText (oText s') = PlayerWinsGame"
  using assms
  by (simp add: war_def warChecking_npc_short checkGameOver_eq winnerText_verdict)

lemma showStackCards_effect:
  "\<exists>s'. showStackCards s =
        (npcCardList s = [] \<or> playerCardList s = [] \<or> roundNumber s = MAX_ROUND_NUMBER, s')
    \<and> playerCardList s' = playerCardList s \<and> npcCardList s' = npcCardList s
    \<and> stack s' = [] \<and> \<not> stackCardsToShow s'
    \<and> warMode s' = warMode s \<and> anotherWar s' = anotherWar s
    \<and> cardsSet s' = cardsSet s \<and> roundNumber s' = roundNumber s \<and> oDeck s' = oDeck s
    \<and> playerHandCard s' = playerHandCard s \<and> npcHandCard s' = npcHandCard s
    \<and> playerLaidCard s' = playerLaidCard s \<and> npcLaidCard s' = npcLaidCard s
    \<and> playerStakeCard s' = playerStakeCard s \<and> npcStakeCard s' = npcStakeCard s
    \<and> playerNewLaidCard s' = playerNewLaidCard s \<and> npcNewLaidCard s' = npcNewLaidCard s
    \<and> same_values (heap s) (heap s')"
  by (simp add: showStackCards_def Let_def checkGameOver_eq same_values_def)

lemma manageGame_normal:
  "cardsSet s \<Longrightarrow> \<not> warMode s \<Longrightarrow> \<not> stackCardsToShow s \<Longrightarrow>
   manageGame s = bind (gamePlay s) (\<lambda>(b, s1). Inr (Some b, s1))"
  by (simp add: manageGame_def)

lemma manageGame_war:
  "cardsSet s \<Longrightarrow> warMode s \<Longrightarrow> manageGame s = bind (war s) (\<lambda>(b, s1). Inr (Some b, s1))"
  by (simp add: manageGame_def)

lemma manageGame_show:
  "cardsSet s \<Longrightarrow> \<not> warMode s \<Longrightarrow> stackCardsToShow s \<Longrightarrow>
   manageGame s = (case showStackCards s of (b, s1) \<Rightarrow> Inr (Some b, s1))"
  by (simp add: manageGame_def)

section \<open>Example states\<close>

lemma standard_values:
  "map cvalue standard_store =
     [9, 10, 11, 12, 13, 14, 9, 10, 11, 12, 13, 14, 9, 10, 11, 12, 13, 14, 9, 10, 11, 12, 13, 14]"
  by code_simp

lemma heap_position: "heap (position p n) = standard_store"
  by (simp add: position_def Game_fields_def standard_store_def split: prod.split)

lemma heap_war_position: "heap (war_position p n st pl nl again) = standard_store"
  by (simp add: war_position_def heap_position)

lemma length_standard_store: "length standard_store = 24"
  using arg_cong [OF standard_values, of length] by simp

lemma standard_value:
  "k < 24 \<Longrightarrow> cvalue (standard_store ! k) =
     [9, 10, 11, 12, 13, 14, 9, 10, 11, 12, 13, 14, 9, 10, 11, 12, 13, 14, 9, 10, 11, 12, 13, 14] ! k"
  using nth_map [of k standard_store cvalue] standard_values length_standard_store by simp

lemma position_fields [simp]:
  "cardsSet (position p n)" "\<not> warMode (position p n)" "\<not> anotherWar (position p n)"
  "\<not> stackCardsToShow (position p n)" "stack (position p n) = []"
  "playerCardList (position p n) = p" "npcCardList (position p n) = n"
  "playerHandCard (position p n) = Some (last p)" "npcHandCard (position p n) = Some (last n)"
  "roundNumber (position p n) = 0"
  by (simp_all add: position_def Game_fields_def case_prod_beta)

lemma war_position_fields [simp]:
  "cardsSet (war_position p n st pl nl again)" "warMode (war_position p n st pl nl again)"
  "anotherWar (war_position p n st pl nl again) = again"
  "\<not> stackCardsToShow (war_position p n st pl nl again)"
  "stack (war_position p n st pl nl again) = st"
  "playerCardList (war_position p n st pl nl again) = p"
  "npcCardList (war_position p n st pl nl again) = n"
  "playerHandCard (war_position p n st pl nl again) = Some (last p)"
  "npcHandCard (war_position p n st pl nl again) = Some (last n)"
  "playerLaidCard (war_position p n st pl nl again) = Some pl"
  "npcLaidCard (war_position p n st pl nl again) = Some nl"
  "roundNumber (war_position p n st pl nl again) = 0"
  "4 \<le> length (displayedCardList (war_position p n st pl nl again))"
  "warCardsTop (war_position p n st pl nl True) \<noteq> None"
  by (simp_all add: war_position_def)

section \<open>The claims about single advances\<close>

text \<open>
  Claim C7. \<open>checkGameOver\<close> tests, in this order and with the first true condition
  deciding: the NPC's pile is empty, the player wins; the player's pile is empty, the NPC
  wins; the round number equals \<open>MAX_ROUND_NUMBER\<close>, which is 100, the larger pile
  wins and equal piles are a draw; otherwise the game goes on and nothing is written.
\<close>

theorem game_over_checks_in_order:
  "(n = [] \<longrightarrow> fst (checkGameOver s p n r)
        \<and> gameOverText (oText (snd (checkGameOver s p n r))) = KoniecGry
        \<and> winnerText (oText (snd (checkGameOver s p n r))) = PlayerWinsGame)
   \<and> (n \<noteq> [] \<and> p = [] \<longrightarrow> fst (checkGameOver s p n r)
        \<and> gameOverText (oText (snd (checkGameOver s p n r))) = KoniecGry
        \<and> winnerText (oText (snd (checkGameOver s p n r))) = NpcWinsGame)
   \<and> (n \<noteq> [] \<and> p \<noteq> [] \<and> r = MAX_ROUND_NUMBER \<longrightarrow> fst (checkGameOver s p n r)
        \<and> gameOverText (oText (snd (checkGameOver s p n r))) = KoniecGry
        \<and> winnerText (oText (snd (checkGameOver s p n r))) =
            (if length p > length n then PlayerWinsGame
             else if length p < length n then NpcWinsGame else Remis))
   \<and> (n \<noteq> [] \<and> p \<noteq> [] \<and> r \<noteq> MAX_ROUND_NUMBER \<longrightarrow> checkGameOver s p n r = (False, s))
   \<and> MAX_ROUND_NUMBER = 100"
  by (simp add: checkGameOver_def Let_def MAX_ROUND_NUMBER_def)

theorem game_over_checks_in_order_witness:
  "fst (checkGameOver (position [0] [1]) [] [] 5)
   \<and> winnerText (oText (snd (checkGameOver (position [0] [1]) [] [] 5))) = PlayerWinsGame
   \<and> winnerText (oText (snd (checkGameOver (position [0] [1]) [] [1] 5))) = NpcWinsGame
   \<and> winnerText (oText (snd (checkGameOver (position [0] [1]) [0, 2] [1] 100))) = PlayerWinsGame
   \<and> winnerText (oText (snd (checkGameOver (position [0] [1]) [0] [1, 2] 100))) = NpcWinsGame
   \<and> winnerText (oText (snd (checkGameOver (position [0] [1]) [0] [1] 100))) = Remis
   \<and> checkGameOver (position [0] [1]) [0] [1] 7 = (False, position [0] [1])"
  using game_over_checks_in_order [of "[]" "position [0] [1]" "[]" 5]
    game_over_checks_in_order [of "[1]" "position [0] [1]" "[]" 5]
    game_over_checks_in_order [of "[1]" "position [0] [1]" "[0, 2]" 100]
    game_over_checks_in_order [of "[1, 2]" "position [0] [1]" "[0]" 100]
    game_over_checks_in_order [of "[1]" "position [0] [1]" "[0]" 100]
    game_over_checks_in_order [of "[1]" "position [0] [1]" "[0]" 7]
  by simp

text \<open>
  Claim C5. In a round of the normal phase with one laid card strictly higher, the
  winner's pile gets the two laid cards at the end opposite to the draw end, the winner's
  card next to the old cards and the loser's card behind it, so that the winner's card is
  drawn before the loser's; the loser's pile is its old pile without the laid card.
\<close>

theorem normal_round_winner_takes_both:
  assumes "cardsSet s" "\<not> warMode s" "\<not> stackCardsToShow s"
    "playerHandCard s \<noteq> None" "npcHandCard s \<noteq> None"
    "playerCardList s = ps @ [a]" "npcCardList s = ns @ [b]"
  shows "(getValue (heap s ! a) > getValue (heap s ! b) \<longrightarrow>
            (\<exists>r s'. manageGame s = Inr (Some r, s')
               \<and> playerCardList s' = [b, a] @ ps \<and> npcCardList s' = ns
               \<and> draw_all (playerCardList s') = draw_all ps @ [a, b]))
       \<and> (getValue (heap s ! a) < getValue (heap s ! b) \<longrightarrow>
            (\<exists>r s'. manageGame s = Inr (Some r, s')
               \<and> npcCardList s' = [a, b] @ ns \<and> playerCardList s' = ps
               \<and> draw_all (npcCardList s') = draw_all ns @ [b, a]))"
proof (intro conjI impI)
  assume v: "getValue (heap s ! a) > getValue (heap s ! b)"
  then have "cvalue (heap s ! a) > cvalue (heap s ! b)" by (simp add: getValue_def)
  from gamePlay_player_wins [OF assms(6,7,4,5,2) this]
  obtain s' r where "gamePlay s = Inr (r, s')" "playerCardList s' = b # a # ps" "npcCardList s' = ns"
    by blast
  then show "\<exists>r s'. manageGame s = Inr (Some r, s')
               \<and> playerCardList s' = [b, a] @ ps \<and> npcCardList s' = ns
               \<and> draw_all (playerCardList s') = draw_all ps @ [a, b]"
    using assms(1-3) by (simp add: manageGame_normal draw_all_rev)
next
  assume v: "getValue (heap s ! a) < getValue (heap s ! b)"
  then have "cvalue (heap s ! a) < cvalue (heap s ! b)" by (simp add: getValue_def)
  from gamePlay_npc_wins [OF assms(6,7,4,5,2) this]
  obtain s' r where "gamePlay s = Inr (r, s')" "playerCardList s' = ps" "npcCardList s' = a # b # ns"
    by blast
  then show "\<exists>r s'. manageGame s = Inr (Some r, s')
               \<and> npcCardList s' = [a, b] @ ns \<and> playerCardList s' = ps
               \<and> draw_all (npcCardList s') = draw_all ns @ [b, a]"
    using assms(1-3) by (simp add: manageGame_normal draw_all_rev)
qed

theorem normal_round_winner_takes_both_witness:
  "(\<exists>r s'. manageGame (position [1, 3, 5, 7, 9, 11, 13, 15, 17, 19, 21, 2]
                                [0, 4, 8, 10, 12, 14, 16, 18, 20, 22, 23, 6]) = Inr (Some r, s')
      \<and> playerCardList s' = [6, 2, 1, 3, 5, 7, 9, 11, 13, 15, 17, 19, 21]
      \<and> npcCardList s' = [0, 4, 8, 10, 12, 14, 16, 18, 20, 22, 23])
   \<and> (\<exists>r s'. manageGame (position [0, 4, 8, 10, 12, 14, 16, 18, 20, 22, 23, 6]
                                  [1, 3, 5, 7, 9, 11, 13, 15, 17, 19, 21, 2]) = Inr (Some r, s')
      \<and> npcCardList s' = [6, 2, 1, 3, 5, 7, 9, 11, 13, 15, 17, 19, 21]
      \<and> playerCardList s' = [0, 4, 8, 10, 12, 14, 16, 18, 20, 22, 23])"
  using normal_round_winner_takes_both
      [of "position [1, 3, 5, 7, 9, 11, 13, 15, 17, 19, 21, 2]
                    [0, 4, 8, 10, 12, 14, 16, 18, 20, 22, 23, 6]"
          "[1, 3, 5, 7, 9, 11, 13, 15, 17, 19, 21]" 2
          "[0, 4, 8, 10, 12, 14, 16, 18, 20, 22, 23]" 6]
    normal_round_winner_takes_both
      [of "position [0, 4, 8, 10, 12, 14, 16, 18, 20, 22, 23, 6]
                    [1, 3, 5, 7, 9, 11, 13, 15, 17, 19, 21, 2]"
          "[0, 4, 8, 10, 12, 14, 16, 18, 20, 22, 23]" 6
          "[1, 3, 5, 7, 9, 11, 13, 15, 17, 19, 21]" 2]
  by (simp add: getValue_def heap_position standard_value) blast

lemma advanced_eq: "manageGame s = Inr (r, s') \<Longrightarrow> advanced s = s' \<and> returned s = r \<and> \<not> isl (manageGame s)"
  by (simp add: advanced_def returned_def)

lemma two_last: "2 \<le> length xs \<Longrightarrow> xs = butlast (butlast xs) @ [last (butlast xs), last xs]"
proof -
  assume l: "2 \<le> length xs"
  then have "xs \<noteq> []" by auto
  then have 1: "xs = butlast xs @ [last xs]" by simp
  from l have "butlast xs \<noteq> []" by (cases xs rule: rev_cases) auto
  then have 2: "butlast xs = butlast (butlast xs) @ [last (butlast xs)]" by simp
  show ?thesis using 1 2 by (metis append.assoc append_Cons append_Nil)
qed

lemma war_stack:
  assumes "playerCardList s = ps @ [pn, pst]" "npcCardList s = ns @ [nn, nst]"
    "playerHandCard s \<noteq> None" "npcHandCard s \<noteq> None"
    "playerLaidCard s = Some pl" "npcLaidCard s = Some nl"
    "anotherWar s \<longrightarrow> 4 \<le> length (displayedCardList s) \<and> warCardsTop s \<noteq> None"
  shows "\<exists>s'. war s = Inr (False, s')
     \<and> stack s' = (if anotherWar s then stack s else stack s @ [pl, nl]) @ [pst, nst, pn, nn]"
proof -
  consider "cvalue (heap s ! pn) > cvalue (heap s ! nn)"
    | "cvalue (heap s ! pn) < cvalue (heap s ! nn)"
    | "cvalue (heap s ! pn) = cvalue (heap s ! nn)" by linarith
  then show ?thesis
  proof cases
    case 1
    from war_player_wins [OF assms 1] show ?thesis by blast
  next
    case 2
    from war_npc_wins [OF assms 2] show ?thesis by blast
  next
    case 3
    from war_tie_again [OF assms 3] show ?thesis by blast
  qed
qed

text \<open>
  Claim C1, as amended. A war advance whose new laid cards differ puts the whole stack,
  in its order and unshuffled, in front of the winner's list. Cards are drawn from the
  end of the list, so the stack lies at the end opposite to the draw end: every card that
  was already in the winner's pile is drawn before any card of the stack.
\<close>

theorem war_winner_takes_stack_below_pile:
  assumes "cardsSet s" "warMode s" "playerHandCard s \<noteq> None" "npcHandCard s \<noteq> None"
    "playerLaidCard s = Some pl" "npcLaidCard s = Some nl"
    "playerCardList s = ps @ [pn, pst]" "npcCardList s = ns @ [nn, nst]"
    "anotherWar s \<longrightarrow> 4 \<le> length (displayedCardList s) \<and> warCardsTop s \<noteq> None"
  shows "(getValue (heap s ! pn) > getValue (heap s ! nn) \<longrightarrow>
           (\<exists>s'. manageGame s = Inr (Some False, s')
              \<and> stack s' = (if anotherWar s then stack s else stack s @ [pl, nl]) @ [pst, nst, pn, nn]
              \<and> playerCardList s' = stack s' @ ps \<and> npcCardList s' = ns
              \<and> draw_all (playerCardList s') = draw_all ps @ draw_all (stack s')))
       \<and> (getValue (heap s ! pn) < getValue (heap s ! nn) \<longrightarrow>
           (\<exists>s'. manageGame s = Inr (Some False, s')
              \<and> stack s' = (if anotherWar s then stack s else stack s @ [pl, nl]) @ [pst, nst, pn, nn]
              \<and> npcCardList s' = stack s' @ ns \<and> playerCardList s' = ps
              \<and> draw_all (npcCardList s') = draw_all ns @ draw_all (stack s')))"
proof (intro conjI impI)
  assume "getValue (heap s ! pn) > getValue (heap s ! nn)"
  then have v: "cvalue (heap s ! pn) > cvalue (heap s ! nn)" by (simp add: getValue_def)
  from war_player_wins [OF assms(7,8,3,4,5,6,9) v]
  obtain s' where "war s = Inr (False, s')"
    "stack s' = (if anotherWar s then stack s else stack s @ [pl, nl]) @ [pst, nst, pn, nn]"
    "playerCardList s' = stack s' @ ps" "npcCardList s' = ns"
    by blast
  then show "\<exists>s'. manageGame s = Inr (Some False, s')
              \<and> stack s' = (if anotherWar s then stack s else stack s @ [pl, nl]) @ [pst, nst, pn, nn]
              \<and> playerCardList s' = stack s' @ ps \<and> npcCardList s' = ns
              \<and> draw_all (playerCardList s') = draw_all ps @ draw_all (stack s')"
    using assms(1,2) by (simp add: manageGame_war draw_all_rev)
next
  assume "getValue (heap s ! pn) < getValue (heap s ! nn)"
  then have v: "cvalue (heap s ! pn) < cvalue (heap s ! nn)" by (simp add: getValue_def)
  from war_npc_wins [OF assms(7,8,3,4,5,6,9) v]
  obtain s' where "war s = Inr (False, s')"
    "stack s' = (if anotherWar s then stack s else stack s @ [pl, nl]) @ [pst, nst, pn, nn]"
    "playerCardList s' = ps" "npcCardList s' = stack s' @ ns"
    by blast
  then show "\<exists>s'. manageGame s = Inr (Some False, s')
              \<and> stack s' = (if anotherWar s then stack s else stack s @ [pl, nl]) @ [pst, nst, pn, nn]
              \<and> npcCardList s' = stack s' @ ns \<and> playerCardList s' = ps
              \<and> draw_all (npcCardList s') = draw_all ns @ draw_all (stack s')"
    using assms(1,2) by (simp add: manageGame_war draw_all_rev)
qed

theorem war_winner_takes_stack_below_pile_witness:
  "(\<exists>s'. manageGame war_example = Inr (Some False, s')
      \<and> stack s' = [6, 0, 3, 2, 5, 4]
      \<and> playerCardList s' = stack s' @ [23, 21, 19, 17, 15, 13, 11, 9, 7]
      \<and> npcCardList s' = [22, 20, 18, 16, 14, 12, 10, 8, 1])
   \<and> (\<exists>s'. manageGame (war_position [22, 20, 18, 16, 14, 12, 10, 8, 1, 4, 2]
                  [23, 21, 19, 17, 15, 13, 11, 9, 7, 5, 3] [] 0 6 False) = Inr (Some False, s')
      \<and> stack s' = [0, 6, 2, 3, 4, 5]
      \<and> npcCardList s' = stack s' @ [23, 21, 19, 17, 15, 13, 11, 9, 7]
      \<and> playerCardList s' = [22, 20, 18, 16, 14, 12, 10, 8, 1])
   \<and> (\<exists>s'. manageGame (war_position [23, 21, 19, 17, 15, 13, 9, 10, 7]
                  [22, 20, 18, 16, 14, 12, 4, 8, 1] [6, 0, 3, 2, 5, 11] 6 0 True)
                = Inr (Some False, s')
      \<and> stack s' = [6, 0, 3, 2, 5, 11, 7, 1, 10, 8]
      \<and> playerCardList s' = stack s' @ [23, 21, 19, 17, 15, 13, 9]
      \<and> npcCardList s' = [22, 20, 18, 16, 14, 12, 4])"
  using war_winner_takes_stack_below_pile
      [of war_example 6 0 "[23, 21, 19, 17, 15, 13, 11, 9, 7]" 5 3
          "[22, 20, 18, 16, 14, 12, 10, 8, 1]" 4 2]
    war_winner_takes_stack_below_pile
      [of "war_position [23, 21, 19, 17, 15, 13, 9, 10, 7]
                  [22, 20, 18, 16, 14, 12, 4, 8, 1] [6, 0, 3, 2, 5, 11] 6 0 True" 6 0
          "[23, 21, 19, 17, 15, 13, 9]" 10 7 "[22, 20, 18, 16, 14, 12, 4]" 8 1]
    war_winner_takes_stack_below_pile
      [of "war_position [22, 20, 18, 16, 14, 12, 10, 8, 1, 4, 2]
                  [23, 21, 19, 17, 15, 13, 11, 9, 7, 5, 3] [] 0 6 False" 0 6
          "[22, 20, 18, 16, 14, 12, 10, 8, 1]" 4 2
          "[23, 21, 19, 17, 15, 13, 11, 9, 7]" 5 3]
  by (simp add: war_example_def getValue_def heap_war_position standard_value) blast

text \<open>
  Claim C1 as stated fails: after the war of the example the player holds the six stack
  cards and nine old cards; the next card drawn is the old card 7, and the stack cards
  are the last six cards drawn.
\<close>

theorem stack_cards_not_drawn_first_counterexample:
  "\<not> isl (manageGame war_example)
   \<and> returned war_example = Some False
   \<and> stack (advanced war_example) = [6, 0, 3, 2, 5, 4]
   \<and> draw_all (playerCardList (advanced war_example)) =
       [7, 9, 11, 13, 15, 17, 19, 21, 23, 4, 5, 2, 3, 0, 6]"
proof -
  have v: "cvalue (heap war_example ! 5) > cvalue (heap war_example ! 4)"
    by (simp add: war_example_def heap_war_position standard_value)
  from war_player_wins [of war_example "[23, 21, 19, 17, 15, 13, 11, 9, 7]" 5 3
          "[22, 20, 18, 16, 14, 12, 10, 8, 1]" 4 2 6 0, OF _ _ _ _ _ _ _ v]
  obtain s' where "war war_example = Inr (False, s')" "stack s' = [6, 0, 3, 2, 5, 4]"
    "playerCardList s' = stack s' @ [23, 21, 19, 17, 15, 13, 11, 9, 7]"
    by (auto simp: war_example_def)
  moreover from this have "manageGame war_example = Inr (Some False, s')"
    by (simp add: manageGame_war war_example_def)
  ultimately show ?thesis using advanced_eq [of war_example "Some False" s']
    by (simp add: draw_all_rev)
qed

text \<open>
  Claim C2, as amended. An advance of the normal phase whose two laid cards have equal
  value sets \<open>warMode\<close> and leaves the stack as it was: the two laid cards are held in
  \<open>playerLaidCard\<close> and \<open>npcLaidCard\<close>. When both sides keep at least two cards,
  each pile is its old pile without the laid card, and the next advance, a war advance,
  puts the two laid cards on the stack before the stake and new laid cards.
\<close>

theorem normal_tie_enters_war:
  assumes "cardsSet s" "\<not> warMode s" "\<not> stackCardsToShow s" "\<not> anotherWar s"
    "playerHandCard s \<noteq> None" "npcHandCard s \<noteq> None"
    "playerCardList s = ps @ [a]" "npcCardList s = ns @ [b]"
    "getValue (heap s ! a) = getValue (heap s ! b)"
  shows "\<exists>r s'. manageGame s = Inr (Some r, s')
           \<and> warMode s' \<and> stack s' = stack s
           \<and> playerLaidCard s' = Some a \<and> npcLaidCard s' = Some b
           \<and> (2 \<le> length ps \<and> 2 \<le> length ns \<longrightarrow>
                 playerCardList s' = ps \<and> npcCardList s' = ns
                 \<and> (\<exists>s''. manageGame s' = Inr (Some False, s'')
                       \<and> stack s'' = stack s @ [a, b] @
                            [last ps, last ns, last (butlast ps), last (butlast ns)]))"
proof -
  have v: "cvalue (heap s ! a) = cvalue (heap s ! b)"
    using assms(9) by (simp add: getValue_def)
  consider (go) "2 \<le> length ps" "2 \<le> length ns" | (pshort) "length ps < 2"
    | (nshort) "2 \<le> length ps" "length ns < 2" by linarith
  then show ?thesis
  proof cases
    case go
    from gamePlay_tie [OF assms(7,8,5,6,2) v go]
    obtain s' where g: "gamePlay s = Inr (roundNumber s + 1 = MAX_ROUND_NUMBER, s')"
      and f: "playerCardList s' = ps" "npcCardList s' = ns" "stack s' = stack s" "warMode s'"
        "anotherWar s' = anotherWar s" "cardsSet s' = cardsSet s"
        "playerHandCard s' \<noteq> None" "npcHandCard s' \<noteq> None"
        "playerLaidCard s' = Some a" "npcLaidCard s' = Some b"
      by blast
    have p: "playerCardList s' = butlast (butlast ps) @ [last (butlast ps), last ps]"
      using f(1) two_last [OF go(1)] by simp
    have n: "npcCardList s' = butlast (butlast ns) @ [last (butlast ns), last ns]"
      using f(2) two_last [OF go(2)] by simp
    from war_stack [OF p n f(7,8,9,10)] f(5) assms(4)
    obtain s'' where w: "war s' = Inr (False, s'')"
      "stack s'' = stack s @ [a, b] @ [last ps, last ns, last (butlast ps), last (butlast ns)]"
      using f(3,5) assms(4) by auto
    have "manageGame s' = Inr (Some False, s'')"
      using w(1) f(4,6) assms(1) by (simp add: manageGame_war)
    then show ?thesis
      using g f w(2) assms(1-3) by (simp add: manageGame_normal)
  next
    case pshort
    from gamePlay_tie_player_short [OF assms(7,8,5,6,2) v pshort]
    show ?thesis using assms(1-3) pshort by (auto simp: manageGame_normal)
  next
    case nshort
    from gamePlay_tie_npc_short [OF assms(7,8,5,6,2) v nshort]
    show ?thesis using assms(1-3) nshort by (auto simp: manageGame_normal)
  qed
qed

theorem normal_tie_enters_war_witness:
  "\<exists>r s'. manageGame tie_example = Inr (Some r, s')
      \<and> warMode s' \<and> stack s' = []
      \<and> playerLaidCard s' = Some 6 \<and> npcLaidCard s' = Some 0
      \<and> playerCardList s' = [23, 21, 19, 17, 15, 13, 11, 9, 7, 5, 3]
      \<and> npcCardList s' = [22, 20, 18, 16, 14, 12, 10, 8, 1, 4, 2]
      \<and> (\<exists>s''. manageGame s' = Inr (Some False, s'') \<and> stack s'' = [6, 0, 3, 2, 5, 4])"
  using normal_tie_enters_war
      [of tie_example "[23, 21, 19, 17, 15, 13, 11, 9, 7, 5, 3]" 6
          "[22, 20, 18, 16, 14, 12, 10, 8, 1, 4, 2]" 0]
  by (simp add: tie_example_def getValue_def heap_position standard_value)

text \<open>
  Claim C2 as stated fails: after the tie of the example the stack is empty, not the two
  laid cards, and each pile has 11 cards instead of 12.
\<close>

theorem tie_leaves_stack_empty_counterexample:
  "\<not> isl (manageGame tie_example)
   \<and> warMode (advanced tie_example)
   \<and> playerLaidCard (advanced tie_example) = Some 6
   \<and> npcLaidCard (advanced tie_example) = Some 0
   \<and> stack (advanced tie_example) = []
   \<and> length (playerCardList tie_example) = 12
   \<and> length (npcCardList tie_example) = 12
   \<and> length (playerCardList (advanced tie_example)) = 11
   \<and> length (npcCardList (advanced tie_example)) = 11"
proof -
  have v: "cvalue (heap tie_example ! 6) = cvalue (heap tie_example ! 0)"
    by (simp add: tie_example_def heap_position standard_value)
  from gamePlay_tie [of tie_example "[23, 21, 19, 17, 15, 13, 11, 9, 7, 5, 3]" 6
          "[22, 20, 18, 16, 14, 12, 10, 8, 1, 4, 2]" 0, OF _ _ _ _ _ v]
  obtain s' where "gamePlay tie_example = Inr (roundNumber tie_example + 1 = MAX_ROUND_NUMBER, s')"
    "playerCardList s' = [23, 21, 19, 17, 15, 13, 11, 9, 7, 5, 3]"
    "npcCardList s' = [22, 20, 18, 16, 14, 12, 10, 8, 1, 4, 2]"
    "stack s' = []" "warMode s'" "playerLaidCard s' = Some 6" "npcLaidCard s' = Some 0"
    by (auto simp: tie_example_def)
  moreover from this
  have "manageGame tie_example = Inr (Some (roundNumber tie_example + 1 = MAX_ROUND_NUMBER), s')"
    by (simp add: manageGame_normal tie_example_def)
  ultimately show ?thesis
    using advanced_eq [of tie_example "Some (roundNumber tie_example + 1 = MAX_ROUND_NUMBER)" s']
    by (simp add: tie_example_def)
qed

lemma checkGameOver_again:
  "checkGameOver (snd (checkGameOver s p n r)) p n r = checkGameOver s p n r"
  by (simp add: checkGameOver_def Let_def)







text \<open>
  Claim C6, as amended. In a war advance with \<open>anotherWar\<close> set, when the player has
  fewer than two cards, or the NPC has fewer than two cards and the player at least two,
  that side's pile becomes empty, the other side's pile becomes its own cards, then the
  stack, then the cards of the side that fell short, and the game-over check of the same
  advance names the other side the winner. The player's pile is tested first: when both
  sides have fewer than two cards it is the player who loses.
\<close>

theorem war_chain_insufficient_cards:
  assumes "cardsSet s" "warMode s" "anotherWar s"
  shows "(length (playerCardList s) < 2 \<longrightarrow>
           (\<exists>s'. manageGame s = Inr (Some True, s')
              \<and> playerCardList s' = []
              \<and> npcCardList s' = npcCardList s @ stack s @ playerCardList s
              \<and> (stack s \<noteq> [] \<longrightarrow> winnerText (oText s') = NpcWinsGame)))
       \<and> (2 \<le> length (playerCardList s) \<and> length (npcCardList s) < 2 \<longrightarrow>
           (\<exists>s'. manageGame s = Inr (Some True, s')
              \<and> npcCardList s' = []
              \<and> playerCardList s' = playerCardList s @ stack s @ npcCardList s
              \<and> winnerText (oText s') = PlayerWinsGame))"
proof (intro conjI impI)
  assume "length (playerCardList s) < 2"
  from war_player_short [OF assms(3) this]
  show "\<exists>s'. manageGame s = Inr (Some True, s')
              \<and> playerCardList s' = []
              \<and> npcCardList s' = npcCardList s @ stack s @ playerCardList s
              \<and> (stack s \<noteq> [] \<longrightarrow> winnerText (oText s') = NpcWinsGame)"
    using assms(1,2) by (auto simp: manageGame_war)
next
  assume "2 \<le> length (playerCardList s) \<and> length (npcCardList s) < 2"
  then have "2 \<le> length (playerCardList s)" "length (npcCardList s) < 2" by simp_all
  from war_npc_short [OF assms(3) this]
  show "\<exists>s'. manageGame s = Inr (Some True, s')
              \<and> npcCardList s' = []
              \<and> playerCardList s' = playerCardList s @ stack s @ npcCardList s
              \<and> winnerText (oText s') = PlayerWinsGame"
    using assms(1,2) by (auto simp: manageGame_war)
qed

theorem war_chain_insufficient_cards_witness:
  "(\<exists>s'. manageGame (war_position [23] [19, 17, 11]
             [6, 0, 18, 12, 7, 1, 13, 8, 2, 20, 14, 9, 3, 21, 15, 10, 4, 22, 16, 5] 6 0 True)
           = Inr (Some True, s')
      \<and> playerCardList s' = []
      \<and> npcCardList s' = [19, 17, 11] @
           [6, 0, 18, 12, 7, 1, 13, 8, 2, 20, 14, 9, 3, 21, 15, 10, 4, 22, 16, 5] @ [23]
      \<and> winnerText (oText s') = NpcWinsGame)
   \<and> (\<exists>s'. manageGame (war_position [19, 17, 11] [23]
             [6, 0, 18, 12, 7, 1, 13, 8, 2, 20, 14, 9, 3, 21, 15, 10, 4, 22, 16, 5] 6 0 True)
           = Inr (Some True, s')
      \<and> npcCardList s' = []
      \<and> playerCardList s' = [19, 17, 11] @
           [6, 0, 18, 12, 7, 1, 13, 8, 2, 20, 14, 9, 3, 21, 15, 10, 4, 22, 16, 5] @ [23]
      \<and> winnerText (oText s') = PlayerWinsGame)"
  using war_chain_insufficient_cards
      [of "war_position [23] [19, 17, 11]
             [6, 0, 18, 12, 7, 1, 13, 8, 2, 20, 14, 9, 3, 21, 15, 10, 4, 22, 16, 5] 6 0 True"]
    war_chain_insufficient_cards
      [of "war_position [19, 17, 11] [23]
             [6, 0, 18, 12, 7, 1, 13, 8, 2, 20, 14, 9, 3, 21, 15, 10, 4, 22, 16, 5] 6 0 True"]
  by simp

text \<open>
  Claim C6 as stated fails when both sides are short: after six ties in a row from an
  even deal each side holds one card; the NPC has fewer than two cards, yet its pile is
  not emptied and it is named the winner with all 24 cards.
\<close>

theorem both_sides_short_counterexample:
  "warMode both_short_example \<and> anotherWar both_short_example
   \<and> length (npcCardList both_short_example) < 2
   \<and> returned both_short_example = Some True
   \<and> playerCardList (advanced both_short_example) = []
   \<and> npcCardList (advanced both_short_example) =
        [17, 6, 0, 18, 12, 7, 1, 19, 13, 8, 2, 20, 14, 9, 3, 21, 15, 10, 4, 22, 16, 11, 5, 23]
   \<and> winnerText (oText (advanced both_short_example)) = NpcWinsGame"
proof -
  from war_player_short [of both_short_example]
  obtain s' where "war both_short_example = Inr (True, s')" "playerCardList s' = []"
    "npcCardList s' =
       [17, 6, 0, 18, 12, 7, 1, 19, 13, 8, 2, 20, 14, 9, 3, 21, 15, 10, 4, 22, 16, 11, 5, 23]"
    "winnerText (oText s') = NpcWinsGame"
    by (auto simp: both_short_example_def)
  moreover from this have "manageGame both_short_example = Inr (Some True, s')"
    by (simp add: manageGame_war both_short_example_def)
  ultimately show ?thesis
    using advanced_eq [of both_short_example "Some True" s']
    by (simp add: both_short_example_def)
qed

section \<open>The deck and the deal\<close>

lemma make_ranks_eq:
  "make_ranks s rvs (h, l) =
     (h @ map (\<lambda>(r, v). Card_init r s v) rvs, l @ [length h ..< length h + length rvs])"
proof (induction rvs arbitrary: h l)
  case Nil
  show ?case by simp
next
  case (Cons rv rvs)
  obtain r v where rv: "rv = (r, v)" by (cases rv)
  have u: "[length h ..< length h + length (rv # rvs)] =
             length h # [Suc (length h) ..< Suc (length h) + length rvs]"
    using upt_conv_Cons [of "length h" "length h + length (rv # rvs)"]
    by (simp del: upt_Suc)
  have "make_ranks s (rv # rvs) (h, l) = make_ranks s rvs (h @ [Card_init r s v], l @ [length h])"
    by (simp add: rv)
  also have "\<dots> = ((h @ [Card_init r s v]) @ map (\<lambda>(r, v). Card_init r s v) rvs,
                    (l @ [length h]) @ [length (h @ [Card_init r s v]) ..<
                                         length (h @ [Card_init r s v]) + length rvs])"
    by (rule Cons.IH)
  finally show ?case unfolding u by (simp add: rv)
qed

lemma length_make_suits:
  "length (snd (make_suits ss rvd (h, l))) = length l + length ss * length rvd
   \<and> length (fst (make_suits ss rvd (h, l))) = length h + length ss * length rvd"
proof (induction ss arbitrary: h l)
  case Nil
  show ?case by simp
next
  case (Cons s ss)
  show ?case by (simp add: make_ranks_eq Cons.IH)
qed

lemma length_random_shuffle [simp]: "length (random_shuffle ds x) = length x"
  by (simp add: random_shuffle_def length_shuffle_loop)

lemma length_SUIT_TUPLE: "length SUIT_TUPLE = 4"
  by (simp add: SUIT_TUPLE_def)

lemma Deck_init_size:
  "length (startingDeckList (snd (Deck_init ds h rankValueDict))) = 4 * length rankValueDict
   \<and> length (playingDeckList (snd (Deck_init ds h rankValueDict))) = 4 * length rankValueDict"
  using length_make_suits [of SUIT_TUPLE rankValueDict h "[]"]
  by (simp add: Deck_init_def shuffle_def Let_def case_prod_beta length_SUIT_TUPLE)

lemma getCard_snoc: "playingDeckList d = xs @ [c] \<Longrightarrow> getCard d = Inr (c, d\<lparr>playingDeckList := xs\<rparr>)"
  by (simp add: getCard_def)

lemma deal_loop_eq:
  "length js \<le> length (playingDeckList (oDeck s)) \<Longrightarrow>
   deal_loop js s =
     Inr (s\<lparr>oDeck := (oDeck s)\<lparr>playingDeckList :=
                  take (length (playingDeckList (oDeck s)) - length js) (playingDeckList (oDeck s))\<rparr>,
            playerCardList := playerCardList s @ fst (deal_split js (rev (playingDeckList (oDeck s)))),
            npcCardList := npcCardList s @ snd (deal_split js (rev (playingDeckList (oDeck s))))\<rparr>)"
proof (induction js arbitrary: s)
  case Nil
  show ?case by simp
next
  case (Cons i js)
  then have "playingDeckList (oDeck s) \<noteq> []" by auto
  then obtain xs c where pl: "playingDeckList (oDeck s) = xs @ [c]"
    by (metis rev_exhaust)
  have len: "length js \<le> length xs" using Cons.prems pl by simp
  show ?case
  proof (cases "i mod 2 = 0")
    case True
    let ?s1 = "s\<lparr>oDeck := (oDeck s)\<lparr>playingDeckList := xs\<rparr>,
                  playerCardList := playerCardList s @ [c]\<rparr>"
    have "deal_loop (i # js) s = deal_loop js ?s1"
      using True by (simp add: getCard_snoc [OF pl])
    also have "\<dots> = Inr (?s1\<lparr>oDeck := (oDeck ?s1)\<lparr>playingDeckList :=
                  take (length (playingDeckList (oDeck ?s1)) - length js) (playingDeckList (oDeck ?s1))\<rparr>,
            playerCardList := playerCardList ?s1 @ fst (deal_split js (rev (playingDeckList (oDeck ?s1)))),
            npcCardList := npcCardList ?s1 @ snd (deal_split js (rev (playingDeckList (oDeck ?s1))))\<rparr>)"
      by (rule Cons.IH) (simp add: len)
    finally show ?thesis using True len by (simp add: pl)
  next
    case False
    let ?s1 = "s\<lparr>oDeck := (oDeck s)\<lparr>playingDeckList := xs\<rparr>,
                  npcCardList := npcCardList s @ [c]\<rparr>"
    have "deal_loop (i # js) s = deal_loop js ?s1"
      using False by (simp add: getCard_snoc [OF pl])
    also have "\<dots> = Inr (?s1\<lparr>oDeck := (oDeck ?s1)\<lparr>playingDeckList :=
                  take (length (playingDeckList (oDeck ?s1)) - length js) (playingDeckList (oDeck ?s1))\<rparr>,
            playerCardList := playerCardList ?s1 @ fst (deal_split js (rev (playingDeckList (oDeck ?s1)))),
            npcCardList := npcCardList ?s1 @ snd (deal_split js (rev (playingDeckList (oDeck ?s1))))\<rparr>)"
      by (rule Cons.IH) (simp add: len)
    finally show ?thesis using False len by (simp add: pl)
  qed
qed

lemma mset_deal_split:
  "length js = length xs \<Longrightarrow>
   mset (fst (deal_split js xs)) + mset (snd (deal_split js xs)) = mset xs"
  by (induction js xs rule: deal_split.induct) simp_all

lemma length_deal_split:
  "length js \<le> length xs \<Longrightarrow>
   length (fst (deal_split js xs)) = length (filter (\<lambda>i. i mod 2 = 0) js)
   \<and> length (snd (deal_split js xs)) = length (filter (\<lambda>i. i mod 2 \<noteq> 0) js)"
  by (induction js xs rule: deal_split.induct) simp_all

lemma evens_upto: "length (filter (\<lambda>i. i mod 2 = 0) [0 ..< 2 * m]) = m"
  by (induction m) simp_all

lemma odds_upto: "length (filter (\<lambda>i. i mod 2 \<noteq> 0) [0 ..< 2 * m]) = m"
  by (induction m) simp_all

lemma dealCards_eq:
  "dealCards ds s =
     Inr (s\<lparr>heap := conceal_all (startingDeckList (oDeck s)) (heap s),
            oDeck := (oDeck s)\<lparr>playingDeckList := []\<rparr>,
            playerCardList := fst (deal_split [0 ..< length (startingDeckList (oDeck s))]
                                   (rev (random_shuffle ds (startingDeckList (oDeck s))))),
            npcCardList := snd (deal_split [0 ..< length (startingDeckList (oDeck s))]
                                   (rev (random_shuffle ds (startingDeckList (oDeck s))))),
            oText := (oText s)\<lparr>playerScoreText := Some (playerScore s),
                                npcScoreText := Some (npcScore s)\<rparr>\<rparr>)"
  by (simp add: dealCards_def shuffle_def Let_def deal_loop_eq)

lemma dealt_lengths: "length (dealt_player ds) = 12 \<and> length (dealt_npc ds) = 12"
  using length_deal_split [of "[0 ..< 24]" "rev (random_shuffle ds [0 ..< 24])"]
    evens_upto [of 12] odds_upto [of 12]
  by (simp add: dealt_player_def dealt_npc_def)

lemma dealt_mset: "mset (dealt_player ds) + mset (dealt_npc ds) = mset [0 ..< 24]"
  using mset_deal_split [of "[0 ..< 24]" "rev (random_shuffle ds [0 ..< 24])"]
  by (simp add: dealt_player_def dealt_npc_def mset_random_shuffle)

lemma standard_refs: "snd (make_suits SUIT_TUPLE STANDARD_DICT ([], [])) = [0 ..< 24]"
  by code_simp

lemma Deck_init_standard:
  "Deck_init ds [] STANDARD_DICT =
     (standard_store, \<lparr>startingDeckList = [0 ..< 24], playingDeckList = random_shuffle ds [0 ..< 24]\<rparr>)"
  using standard_refs
  by (simp add: Deck_init_def shuffle_def Let_def case_prod_beta standard_store_def)

lemma Game_init_effect:
  "\<exists>s. Game_init ds1 ds2 = Inr s
     \<and> playerCardList s = dealt_player ds2 \<and> npcCardList s = dealt_npc ds2
     \<and> stack s = [] \<and> cardsSet s \<and> \<not> warMode s \<and> \<not> anotherWar s \<and> \<not> stackCardsToShow s
     \<and> roundNumber s = 0 \<and> startingDeckList (oDeck s) = [0 ..< 24]
     \<and> playerHandCard s \<noteq> None \<and> npcHandCard s \<noteq> None
     \<and> playerLaidCard s = None \<and> npcLaidCard s = None
     \<and> playerStakeCard s = None \<and> npcStakeCard s = None
     \<and> playerNewLaidCard s = None \<and> npcNewLaidCard s = None
     \<and> same_values standard_store (heap s)"
  using dealt_lengths [of ds2]
  by (simp add: Game_init_def Deck_init_standard Game_fields_def dealCards_eq manageGame_def
      firstView_def from_end_def same_values_def length_conceal_all
      setLocs_range N_SEEN_CARDS_def
      dealt_player_def [symmetric] dealt_npc_def [symmetric])

text \<open>
  The size of a deck: one card per suit and rank, four times the size of the rank table,
  hence even; the deal from such a deck never fails and gives each side half of it.
\<close>

lemma deck_size_always_even:
  "length (startingDeckList (snd (Deck_init ds1 h rankValueDict))) = 4 * length rankValueDict
   \<and> even (length (startingDeckList (snd (Deck_init ds1 h rankValueDict))))
   \<and> (\<exists>s. dealCards ds2 (Game_fields (Deck_init ds1 h rankValueDict)) = Inr s
         \<and> length (playerCardList s) = 2 * length rankValueDict
         \<and> length (npcCardList s) = 2 * length rankValueDict)"
proof -
  let ?d = "snd (Deck_init ds1 h rankValueDict)"
  let ?n = "length rankValueDict"
  have l: "length (startingDeckList ?d) = 2 * (2 * ?n)"
    using Deck_init_size [of ds1 h rankValueDict] by simp
  have o: "oDeck (Game_fields (Deck_init ds1 h rankValueDict)) = ?d"
    by (simp add: Game_fields_def case_prod_beta)
  have "length (fst (deal_split [0 ..< 2 * (2 * ?n)] (rev (random_shuffle ds2 (startingDeckList ?d)))))
          = 2 * ?n
      \<and> length (snd (deal_split [0 ..< 2 * (2 * ?n)] (rev (random_shuffle ds2 (startingDeckList ?d)))))
          = 2 * ?n"
    using length_deal_split [of "[0 ..< 2 * (2 * ?n)]" "rev (random_shuffle ds2 (startingDeckList ?d))"]
      evens_upto [of "2 * ?n"] odds_upto [of "2 * ?n"] l
    by simp
  then show ?thesis using l o by (simp add: dealCards_eq)
qed

section \<open>An invariant of the reachable states\<close>

text \<open>
  Every state reached from a fresh engine by advances, none of them made after an advance
  that returned \<open>True\<close>, satisfies \<open>game_inv\<close>: the deal establishes it and each kind
  of advance (normal round, war, showing the stack) preserves it.
\<close>

lemma deck_card_simps [simp]: "deck_card None" "deck_card (Some c) = (c < 24)"
  by (simp_all add: deck_card_def)

lemma in_deck: "mset xs + M = mset [0 ..< 24] \<Longrightarrow> x \<in> set xs \<Longrightarrow> x < 24"
proof -
  assume e: "mset xs + M = mset [0 ..< 24]" and x: "x \<in> set xs"
  have "x \<in># mset xs + M" using x by simp
  then have "x \<in># mset [0 ..< 24]" using e by simp
  then show ?thesis by simp
qed

lemma in_deck2: "M + mset xs = mset [0 ..< 24] \<Longrightarrow> x \<in> set xs \<Longrightarrow> x < 24"
  using in_deck [of xs M x] by (simp add: add.commute)

lemma game_inv_init: "Game_init ds1 ds2 = Inr s \<Longrightarrow> game_inv None s"
  using Game_init_effect [of ds1 ds2] dealt_lengths [of ds2] dealt_mset [of ds2]
  by (auto simp: game_inv_def)

lemma game_inv_normal:
  assumes i: "game_inv r s" and nt: "r \<noteq> Some True"
    and ph: "\<not> warMode s" "\<not> stackCardsToShow s"
    and m: "manageGame s = Inr (r', s')"
  shows "game_inv r' s'"
proof -
  from i ph nt have c: "cardsSet s" and h: "playerHandCard s \<noteq> None" "npcHandCard s \<noteq> None"
    and st: "stack s = []" and ne: "playerCardList s \<noteq> []" "npcCardList s \<noteq> []"
    and ms: "mset (playerCardList s) + mset (npcCardList s) = mset [0 ..< 24]"
    and aw: "\<not> anotherWar s"
    and hd: "deck_card (playerStakeCard s)" "deck_card (npcStakeCard s)"
      "deck_card (playerNewLaidCard s)" "deck_card (npcNewLaidCard s)"
    and dk: "startingDeckList (oDeck s) = [0 ..< 24]" and sv: "same_values standard_store (heap s)"
    by (simp_all add: game_inv_def)
  obtain ps a where p: "playerCardList s = ps @ [a]" using ne(1) by (metis rev_exhaust)
  obtain ns b where n: "npcCardList s = ns @ [b]" using ne(2) by (metis rev_exhaust)
  have ab: "a < 24" "b < 24"
    using in_deck [OF ms, of a] in_deck2 [OF ms, of b] p n by simp_all
  have ms': "mset ps + mset ns + {#a, b#} = mset [0 ..< 24]"
    using ms p n by (simp add: add_mset_commute)
  have mg: "manageGame s = bind (gamePlay s) (\<lambda>(b, s1). Inr (Some b, s1))"
    using c ph by (simp add: manageGame_normal)
  consider (gt) "cvalue (heap s ! a) > cvalue (heap s ! b)"
    | (lt) "cvalue (heap s ! a) < cvalue (heap s ! b)"
    | (eq2) "cvalue (heap s ! a) = cvalue (heap s ! b)" "2 \<le> length ps" "2 \<le> length ns"
    | (eqp) "cvalue (heap s ! a) = cvalue (heap s ! b)" "length ps < 2"
    | (eqn) "cvalue (heap s ! a) = cvalue (heap s ! b)" "2 \<le> length ps" "length ns < 2"
    by linarith
  then show ?thesis
  proof cases
    case gt
    show ?thesis
      using gamePlay_player_wins [OF p n h ph(1) gt] m mg c st aw ph hd dk ms' ab
        same_values_trans [OF sv]
      by (clarsimp simp: game_inv_def add_mset_commute)
  next
    case lt
    show ?thesis
      using gamePlay_npc_wins [OF p n h ph(1) lt] m mg c st aw ph hd dk ms' ab
        same_values_trans [OF sv]
      by (clarsimp simp: game_inv_def add_mset_commute)
  next
    case eq2
    show ?thesis
      using gamePlay_tie [OF p n h ph(1) eq2] eq2(2,3) m mg c st aw ph hd dk ms' ab
        same_values_trans [OF sv]
      by (clarsimp simp: game_inv_def add_mset_commute) auto
  next
    case eqp
    show ?thesis
      using gamePlay_tie_player_short [OF p n h ph(1) eqp] m mg c st aw ph hd dk ms' ab
        same_values_trans [OF sv]
      by (clarsimp simp: game_inv_def add_mset_commute) (simp add: add.commute)
  next
    case eqn
    show ?thesis
      using gamePlay_tie_npc_short [OF p n h ph(1) eqn] m mg c st aw ph hd dk ms' ab
        same_values_trans [OF sv]
      by (clarsimp simp: game_inv_def add_mset_commute)
  qed
qed

lemma game_inv_show:
  assumes i: "game_inv r s" and ph: "\<not> warMode s" "stackCardsToShow s"
    and m: "manageGame s = Inr (r', s')"
  shows "game_inv r' s'"
  using showStackCards_effect [of s] i ph m same_values_trans [of standard_store "heap s"]
  by (clarsimp simp: game_inv_def manageGame_show)

lemma game_inv_war_go:
  assumes i: "game_inv r s" and nt: "r \<noteq> Some True" and ph: "warMode s"
    and l2: "2 \<le> length (playerCardList s)" "2 \<le> length (npcCardList s)"
    and m: "manageGame s = Inr (r', s')"
  shows "game_inv r' s'"
proof -
  from i ph nt have c: "cardsSet s" and h: "playerHandCard s \<noteq> None" "npcHandCard s \<noteq> None"
    and dk: "startingDeckList (oDeck s) = [0 ..< 24]" and sv: "same_values standard_store (heap s)"
    and ss: "set (stack s) \<subseteq> {..< 24}"
    and dl: "deck_card (playerLaidCard s)" "deck_card (npcLaidCard s)"
    and la: "playerLaidCard s \<noteq> None" "npcLaidCard s \<noteq> None"
    and nsh: "\<not> stackCardsToShow s"
    and dw: "anotherWar s \<longrightarrow> 4 \<le> length (displayedCardList s) \<and> warCardsTop s \<noteq> None"
    by (auto simp: game_inv_def split: if_splits)
  obtain pl nl where pl: "playerLaidCard s = Some pl" "npcLaidCard s = Some nl"
    using la by auto
  have pln: "pl < 24" "nl < 24" using dl pl by simp_all
  obtain ps pn pst where p: "playerCardList s = ps @ [pn, pst]"
    using two_last [OF l2(1)] by metis
  obtain ns nn nst where n: "npcCardList s = ns @ [nn, nst]"
    using two_last [OF l2(2)] by metis
  have ms: "mset ps + mset ns + {#pn, pst, nn, nst#}
              + mset (if anotherWar s then stack s else stack s @ [pl, nl]) = mset [0 ..< 24]"
    using i ph nt p n pl by (auto simp: game_inv_def add_mset_commute split: if_splits)
  have e: "pn < 24" "pst < 24" "nn < 24" "nst < 24"
    using arg_cong [OF ms, of set_mset] by auto
  have mg: "manageGame s = bind (war s) (\<lambda>(b, s1). Inr (Some b, s1))"
    using c ph by (simp add: manageGame_war)
  consider (gt) "cvalue (heap s ! pn) > cvalue (heap s ! nn)"
    | (lt) "cvalue (heap s ! pn) < cvalue (heap s ! nn)"
    | (eq) "cvalue (heap s ! pn) = cvalue (heap s ! nn)"
    by linarith
  then show ?thesis
  proof cases
    case gt
    show ?thesis
      using war_player_wins [OF p n h pl dw gt] m mg c ph dk ms e pln ss
        same_values_trans [OF sv]
      by (clarsimp simp: game_inv_def add_mset_commute ac_simps split: if_splits)
  next
    case lt
    show ?thesis
      using war_npc_wins [OF p n h pl dw lt] m mg c ph dk ms e pln ss
        same_values_trans [OF sv]
      by (clarsimp simp: game_inv_def add_mset_commute ac_simps split: if_splits)
  next
    case eq
    show ?thesis
      using war_tie_again [OF p n h pl dw eq] m mg c ph dk ms e pln ss nsh
        same_values_trans [OF sv]
      by (clarsimp simp: game_inv_def add_mset_commute ac_simps split: if_splits)
  qed
qed

lemma game_inv_war_short:
  assumes i: "game_inv r s" and nt: "r \<noteq> Some True" and ph: "warMode s" "anotherWar s"
    and l2: "length (playerCardList s) < 2 \<or> length (npcCardList s) < 2"
    and m: "manageGame s = Inr (r', s')"
  shows "game_inv r' s'"
proof -
  have c: "cardsSet s" using i by (simp add: game_inv_def)
  have mg: "manageGame s = bind (war s) (\<lambda>(b, s1). Inr (Some b, s1))"
    using c ph by (simp add: manageGame_war)
  show ?thesis
  proof (cases "length (playerCardList s) < 2")
    case True
    show ?thesis
      using war_player_short [OF ph(2) True] i nt ph m mg
      by (clarsimp simp: game_inv_def) (simp add: ac_simps)
  next
    case False
    then have a: "2 \<le> length (playerCardList s)" "length (npcCardList s) < 2"
      using l2 by simp_all
    show ?thesis
      using war_npc_short [OF ph(2) a] i nt ph m mg
      by (clarsimp simp: game_inv_def) (simp add: ac_simps)
  qed
qed

lemma game_inv_step:
  assumes i: "game_inv r s" and nt: "r \<noteq> Some True" and m: "manageGame s = Inr (r', s')"
  shows "game_inv r' s'"
proof (cases "warMode s")
  case False
  show ?thesis
  proof (cases "stackCardsToShow s")
    case True
    show ?thesis using game_inv_show [OF i False True m] .
  next
    case nsh: False
    show ?thesis using game_inv_normal [OF i nt False nsh m] .
  qed
next
  case True
  show ?thesis
  proof (cases "2 \<le> length (playerCardList s) \<and> 2 \<le> length (npcCardList s)")
    case go: True
    show ?thesis using game_inv_war_go [OF i nt True _ _ m] go by simp
  next
    case short: False
    have "anotherWar s"
    proof (rule ccontr)
      assume "\<not> anotherWar s"
      then have "playerCardList s \<noteq> [] \<and> npcCardList s \<noteq> []
          \<and> (playerCardList s = [] \<or> npcCardList s = []
             \<or> 2 \<le> length (playerCardList s) \<and> 2 \<le> length (npcCardList s))"
        using i nt True \<open>\<not> anotherWar s\<close> by (simp add: game_inv_def) blast
      then show False using short by blast
    qed
    moreover have "length (playerCardList s) < 2 \<or> length (npcCardList s) < 2"
      using short by auto
    ultimately show ?thesis using game_inv_war_short [OF i nt True _ _ m] by simp
  qed
qed

lemma reach_inv: "reach r s \<Longrightarrow> game_inv r s"
proof (induction rule: reach.induct)
  case (reach_init ds1 ds2 s)
  then show ?case by (rule game_inv_init)
next
  case (reach_step r s r' s')
  then show ?case using game_inv_step by blast
qed

lemma reach_display_ready:
  "reach r s \<Longrightarrow> anotherWar s \<Longrightarrow> 4 \<le> length (displayedCardList s) \<and> warCardsTop s \<noteq> None"
  using reach_inv [of r s] by (cases "warMode s") (simp_all add: game_inv_def)



lemma set_held:
  "set (held s) = set_option (playerLaidCard s) \<union> set_option (npcLaidCard s)
     \<union> set_option (playerStakeCard s) \<union> set_option (npcStakeCard s)
     \<union> set_option (playerNewLaidCard s) \<union> set_option (npcNewLaidCard s)"
  by (auto simp: held_def split: option.splits)

lemma deck_card_set: "deck_card x \<Longrightarrow> set_option x \<subseteq> {..< 24}"
  by (cases x) simp_all

lemma piles_cover:
  assumes m: "mset p + mset n = mset D" and x: "set xs \<subseteq> set D"
  shows "filter (\<lambda>c. c \<notin> set p \<and> c \<notin> set n) xs = []"
    and "filter (\<lambda>c. c \<notin> set p \<and> c \<notin> set n \<and> c \<notin> set st) xs = []"
    and "length p + length n = length D"
proof -
  have "set_mset (mset p + mset n) = set_mset (mset D)" using m by simp
  then have u: "set p \<union> set n = set D" by simp
  show "filter (\<lambda>c. c \<notin> set p \<and> c \<notin> set n) xs = []"
    using x u by (auto simp: filter_empty_conv)
  show "filter (\<lambda>c. c \<notin> set p \<and> c \<notin> set n \<and> c \<notin> set st) xs = []"
    using x u by (auto simp: filter_empty_conv)
  have "size (mset p + mset n) = size (mset D)" using m by simp
  then show "length p + length n = length D" by simp
qed

lemma chain_cover:
  assumes m: "mset p + mset n + mset st = mset D" and d: "distinct D" and x: "set xs \<subseteq> set D"
  shows "filter (\<lambda>c. c \<notin> set p \<and> c \<notin> set n) st = st"
    and "filter (\<lambda>c. c \<notin> set p \<and> c \<notin> set n \<and> c \<notin> set st) xs = []"
    and "length p + length n + length st = length D"
proof -
  have e: "mset (p @ n @ st) = mset D" using m by (simp add: ac_simps)
  have dd: "distinct (p @ n @ st)" using mset_eq_imp_distinct_iff [OF e] d by simp
  have "set (p @ n @ st) = set D" using e by (rule mset_eq_setD)
  then have u: "set p \<union> set n \<union> set st = set D" by (simp add: Un_assoc)
  show "filter (\<lambda>c. c \<notin> set p \<and> c \<notin> set n) st = st"
    using dd by (auto simp: filter_id_conv)
  show "filter (\<lambda>c. c \<notin> set p \<and> c \<notin> set n \<and> c \<notin> set st) xs = []"
    using x u by (auto simp: filter_empty_conv)
  have "length (p @ n @ st) = length D" using e by (rule mset_eq_length)
  then show "length p + length n + length st = length D" by simp
qed

lemma laid_cover:
  assumes m: "mset p + mset n + {#a, b#} = mset D" and d: "distinct D" and x: "set xs \<subseteq> set D"
    and a: "a \<in> set xs" and b: "b \<in> set xs"
  shows "length (remdups (filter (\<lambda>c. c \<notin> set p \<and> c \<notin> set n \<and> c \<notin> set []) xs)) = 2"
    and "length p + length n + 2 = length D"
    and "a \<notin> set p \<and> a \<notin> set n \<and> b \<notin> set p \<and> b \<notin> set n"
proof -
  have e: "mset (p @ n @ [a, b]) = mset D" using m by (simp add: ac_simps)
  have dd: "distinct (p @ n @ [a, b])" using mset_eq_imp_distinct_iff [OF e] d by simp
  have "set (p @ n @ [a, b]) = set D" using e by (rule mset_eq_setD)
  then have u: "set p \<union> set n \<union> {a, b} = set D" by (simp add: Un_assoc)
  show o: "a \<notin> set p \<and> a \<notin> set n \<and> b \<notin> set p \<and> b \<notin> set n"
    using dd by auto
  have ab: "a \<noteq> b" using dd by simp
  have "set (filter (\<lambda>c. c \<notin> set p \<and> c \<notin> set n \<and> c \<notin> set []) xs) = {a, b}"
    using x u o a b by auto
  then show "length (remdups (filter (\<lambda>c. c \<notin> set p \<and> c \<notin> set n \<and> c \<notin> set []) xs)) = 2"
    using ab by (simp add: length_remdups_card_conv)
  have "length (p @ n @ [a, b]) = length D" using e by (rule mset_eq_length)
  then show "length p + length n + 2 = length D" by simp
qed


lemma held_in_deck:
  assumes i: "game_inv r s"
  shows "set (held s) \<subseteq> set [0 ..< 24]"
proof -
  have "deck_card (playerLaidCard s)" "deck_card (npcLaidCard s)" "deck_card (playerStakeCard s)"
    "deck_card (npcStakeCard s)" "deck_card (playerNewLaidCard s)" "deck_card (npcNewLaidCard s)"
    using i by (simp_all add: game_inv_def)
  then have "set (held s) \<subseteq> {..< 24}"
    unfolding set_held by (intro Un_least deck_card_set)
  then show ?thesis by (simp add: atLeast0LessThan)
qed

lemma stack_in_deck: "game_inv r s \<Longrightarrow> set (stack s) \<subseteq> set [0 ..< 24]"
  by (simp add: game_inv_def atLeast0LessThan)

lemma laid_held: "playerLaidCard s = Some a \<Longrightarrow> npcLaidCard s = Some b \<Longrightarrow> a \<in> set (held s) \<and> b \<in> set (held s)"
  by (simp add: set_held)

lemma inv_phases:
  assumes i: "game_inv r s"
  obtains (piles) "mset (playerCardList s) + mset (npcCardList s) = mset [0 ..< 24]"
    | (chain) "mset (playerCardList s) + mset (npcCardList s) + mset (stack s) = mset [0 ..< 24]"
    | (laid) a b where "stack s = []" "playerLaidCard s = Some a" "npcLaidCard s = Some b"
        "mset (playerCardList s) + mset (npcCardList s) + {#a, b#} = mset [0 ..< 24]"
proof (cases "warMode s")
  case False
  then show ?thesis using i piles by (simp add: game_inv_def)
next
  case w: True
  show ?thesis
  proof (cases "anotherWar s")
    case False
    then show ?thesis using i w laid by (simp add: game_inv_def) blast
  next
    case True
    then show ?thesis using i w piles chain by (cases "r = Some True") (simp_all add: game_inv_def)
  qed
qed

end
